theory Spec2Isabelle
  imports Main "HOL-Library.Word" "HOL-Library.Multiset"
begin

section \<open>heif2png: metadata, tile assembly and output\<close>

text \<open>
  A shallow embedding of \<^verbatim>\<open>main.go\<close>. Bytes and Go strings are \<^typ>\<open>string\<close>
  (lists of 8-bit characters). Go's \<^verbatim>\<open>int\<close> is modelled by \<^typ>\<open>int\<close>: every
  integer that enters the program comes from \<^verbatim>\<open>strconv.ParseInt(_, 10, 32)\<close>, a list
  index or the bounds of a decoded PNG, and the products formed from them stay far
  below 64 bits. The range check of \<^verbatim>\<open>ParseInt\<close> is written out.
\<close>

subsection \<open>The grid descriptor\<close>

record HeifInfo =
  Width :: int
  Height :: int
  Rotation :: int
  Tiles :: int
  Rows :: int
  Cols :: int

text \<open>The zero value of the Go struct (the named result \<^verbatim>\<open>info\<close> of \<^verbatim>\<open>heifGetInfo\<close>).\<close>

definition zero_HeifInfo :: HeifInfo where
  "zero_HeifInfo = \<lparr>Width = 0, Height = 0, Rotation = 0, Tiles = 0, Rows = 0, Cols = 0\<rparr>"

subsection \<open>Library functions used by \<^verbatim>\<open>heifGetInfo\<close>\<close>

text \<open>\<^verbatim>\<open>bytes.IndexByte\<close>: the index of the first occurrence, \<^verbatim>\<open>-1\<close> is \<open>None\<close>.\<close>

fun IndexByte :: "string \<Rightarrow> char \<Rightarrow> nat option" where
  "IndexByte [] c = None"
| "IndexByte (b # bs) c = (if b = c then Some 0 else map_option Suc (IndexByte bs c))"

text \<open>
  \<^verbatim>\<open>bytes.TrimSpace\<close> removes leading and trailing Unicode white space. \<open>space_len s\<close>
  is the number of bytes of the white-space rune that starts \<open>s\<close> (0 when there is
  none): the six ASCII characters, and the UTF-8 encodings of U+0085, U+00A0, U+1680,
  U+2000 to U+200A, U+2028, U+2029, U+202F, U+205F and U+3000.
\<close>

definition asciiSpace :: "char \<Rightarrow> bool" where
  "asciiSpace c = (c = CHR 0x09 \<or> c = CHR 0x0A \<or> c = CHR 0x0B \<or> c = CHR 0x0C
     \<or> c = CHR 0x0D \<or> c = CHR 0x20)"

definition space3 :: "char \<Rightarrow> char \<Rightarrow> char \<Rightarrow> bool" where
  "space3 a b c =
     ((a = CHR 0xE1 \<and> b = CHR 0x9A \<and> c = CHR 0x80)
    \<or> (a = CHR 0xE2 \<and> b = CHR 0x80 \<and>
         ((128 \<le> (of_char c :: int) \<and> (of_char c :: int) \<le> 138)
          \<or> c = CHR 0xA8 \<or> c = CHR 0xA9 \<or> c = CHR 0xAF))
    \<or> (a = CHR 0xE2 \<and> b = CHR 0x81 \<and> c = CHR 0x9F)
    \<or> (a = CHR 0xE3 \<and> b = CHR 0x80 \<and> c = CHR 0x80))"

definition space2 :: "char \<Rightarrow> char \<Rightarrow> bool" where
  "space2 a b = (a = CHR 0xC2 \<and> (b = CHR 0x85 \<or> b = CHR 0xA0))"

fun space_len :: "string \<Rightarrow> nat" where
  "space_len [] = 0"
| "space_len [a] = (if asciiSpace a then 1 else 0)"
| "space_len [a, b] = (if asciiSpace a then 1 else if space2 a b then 2 else 0)"
| "space_len (a # b # c # s) =
     (if asciiSpace a then 1 else if space2 a b then 2 else if space3 a b c then 3 else 0)"

text \<open>The same for the rune that ends \<open>s\<close>, given \<open>rev s\<close>.\<close>

fun space_len_rev :: "string \<Rightarrow> nat" where
  "space_len_rev [] = 0"
| "space_len_rev [a] = (if asciiSpace a then 1 else 0)"
| "space_len_rev [b, a] = (if asciiSpace b then 1 else if space2 a b then 2 else 0)"
| "space_len_rev (c # b # a # s) =
     (if asciiSpace c then 1 else if space2 b c then 2 else if space3 a b c then 3 else 0)"

lemma space_len_le: "space_len s \<le> length s"
  by (induction s rule: space_len.induct) auto

lemma space_len_rev_le: "space_len_rev s \<le> length s"
  by (induction s rule: space_len_rev.induct) auto

function TrimLeft :: "string \<Rightarrow> string" where
  "TrimLeft s = (if space_len s = 0 then s else TrimLeft (drop (space_len s) s))"
  by pat_completeness auto
termination
proof (relation "measure length")
  show "wf (measure length)" by simp
next
  fix s :: string
  assume "space_len s \<noteq> 0"
  moreover have "space_len s \<le> length s" by (rule space_len_le)
  ultimately show "(drop (space_len s) s, s) \<in> measure length" by simp
qed

function TrimRight_rev :: "string \<Rightarrow> string" where
  "TrimRight_rev s = (if space_len_rev s = 0 then s else TrimRight_rev (drop (space_len_rev s) s))"
  by pat_completeness auto
termination
proof (relation "measure length")
  show "wf (measure length)" by simp
next
  fix s :: string
  assume "space_len_rev s \<noteq> 0"
  moreover have "space_len_rev s \<le> length s" by (rule space_len_rev_le)
  ultimately show "(drop (space_len_rev s) s, s) \<in> measure length" by simp
qed

declare TrimLeft.simps [simp del] TrimRight_rev.simps [simp del]

definition TrimSpace :: "string \<Rightarrow> string" where
  "TrimSpace s = rev (TrimRight_rev (rev (TrimLeft s)))"

text \<open>
  \<^verbatim>\<open>strconv.ParseInt(s, 10, 32)\<close>: an optional sign, then one or more decimal digits
  (no underscores in base 10), and the value within the signed 32-bit range. Every
  error (\<^verbatim>\<open>ErrSyntax\<close>, \<^verbatim>\<open>ErrRange\<close>) is \<open>None\<close>: the caller only tests
  \<^verbatim>\<open>err != nil\<close>.
\<close>

definition is_digit :: "char \<Rightarrow> bool" where
  "is_digit c = (48 \<le> (of_char c :: int) \<and> (of_char c :: int) \<le> 57)"

definition digits_val :: "string \<Rightarrow> int" where
  "digits_val ds = fold (\<lambda>c n. 10 * n + ((of_char c :: int) - 48)) ds 0"

definition ParseUint10 :: "string \<Rightarrow> int option" where
  "ParseUint10 ds = (if ds = [] \<or> \<not> list_all is_digit ds then None else Some (digits_val ds))"

definition ParseInt10_32 :: "string \<Rightarrow> int option" where
  "ParseInt10_32 s =
     (if s = [] then None
      else let neg = (hd s = CHR ''-'');
               ds = (if hd s = CHR ''+'' \<or> hd s = CHR ''-'' then tl s else s)
           in case ParseUint10 ds of
                None \<Rightarrow> None
              | Some un \<Rightarrow>
                  if \<not> neg \<and> un \<ge> 2 ^ 31 then None
                  else if neg \<and> un > 2 ^ 31 then None
                  else Some (if neg then - un else un))"

text \<open>
  \<^verbatim>\<open>bufio.Reader.ReadBytes(delim)\<close> on a reader over the bytes \<open>rd\<close>: the bytes up to
  and including the first \<open>delim\<close>; when there is none, the rest of the buffer
  together with \<^verbatim>\<open>io.EOF\<close> (the flag). The third component is what is left to read.
\<close>

definition ReadBytes :: "string \<Rightarrow> char \<Rightarrow> string \<times> bool \<times> string" where
  "ReadBytes rd delim =
     (case IndexByte rd delim of
        None \<Rightarrow> (rd, True, [])
      | Some i \<Rightarrow> (take (Suc i) rd, False, drop (Suc i) rd))"

subsection \<open>\<^verbatim>\<open>heifGetInfo\<close>: the metadata resolver\<close>

text \<open>
  The closure \<^verbatim>\<open>splitInt\<close>. The Go result \<^verbatim>\<open>(nil, 0)\<close> is \<open>None\<close>; a line that
  starts with \<^verbatim>\<open>=\<close> gives the empty, non-nil name \<open>Some ([], val)\<close>.
\<close>

definition splitInt :: "string \<Rightarrow> (string \<times> int) option" where
  "splitInt line =
     (case IndexByte line CHR ''='' of
        None \<Rightarrow> None
      | Some pos \<Rightarrow>
          (case ParseInt10_32 (TrimSpace (drop (Suc pos) line)) of
             None \<Rightarrow> None
           | Some val \<Rightarrow> Some (take pos line, val)))"

text \<open>One iteration of the read loop after a line was read: the \<^verbatim>\<open>else if\<close> chain.\<close>

definition assign_line :: "HeifInfo \<Rightarrow> string \<Rightarrow> HeifInfo" where
  "assign_line info line =
     (case splitInt line of
        None \<Rightarrow> info
      | Some (name, val) \<Rightarrow>
          if name = ''width'' then info\<lparr>Width := val\<rparr>
          else if name = ''height'' then info\<lparr>Height := val\<rparr>
          else if name = ''rotation'' then info\<lparr>Rotation := val\<rparr>
          else if name = ''tiles'' then info\<lparr>Tiles := val\<rparr>
          else if name = ''rows'' then info\<lparr>Rows := val\<rparr>
          else if name = ''cols'' then info\<lparr>Cols := val\<rparr>
          else info)"

lemma IndexByte_less: "IndexByte s c = Some i \<Longrightarrow> i < length s"
  by (induction s arbitrary: i) (auto split: if_splits)

text \<open>The \<^verbatim>\<open>for\<close> loop over the reader: it ends at the first read error, that is
  at the end of the buffer, and drops an unterminated last line.\<close>

function read_loop :: "HeifInfo \<Rightarrow> string \<Rightarrow> HeifInfo" where
  "read_loop info rd =
     (case ReadBytes rd CHR 0x0A of
        (line, err, rd') \<Rightarrow> if err then info else read_loop (assign_line info line) rd')"
  by pat_completeness auto
termination
proof (relation "measure (\<lambda>(info, rd). length rd)")
  show "wf (measure (\<lambda>(info, rd). length rd))" by simp
next
  fix info :: HeifInfo and rd :: string and x line y err rd'
  assume a: "(line, y) = ReadBytes rd CHR 0x0A" "(err, rd') = y" "\<not> err"
  then have r: "ReadBytes rd CHR 0x0A = (line, err, rd')" by simp
  then obtain i where i: "IndexByte rd CHR 0x0A = Some i" "rd' = drop (Suc i) rd"
    using a(3) by (auto simp: ReadBytes_def split: option.splits)
  from IndexByte_less [OF i(1)] i(2) have "length rd' < length rd" by simp
  then show "((assign_line info line, rd'), (info, rd)) \<in> measure (\<lambda>(info, rd). length rd)"
    by simp
qed

declare read_loop.simps [simp del]


subsection \<open>Errors\<close>

datatype error =
    Wrap string  \<comment> \<open>\<^verbatim>\<open>errors.Wrap(err, msg)\<close>, identified by its message\<close>
  | DivideByZero  \<comment> \<open>the run-time panic \<^verbatim>\<open>integer divide by zero\<close>\<close>
  | HugeImage  \<comment> \<open>the panic of \<^verbatim>\<open>image.NewRGBA\<close> on huge dimensions\<close>

subsection \<open>Images (packages \<^verbatim>\<open>image\<close> and \<^verbatim>\<open>image/draw\<close>)\<close>

text \<open>
  A colour of the canvas: the four 8-bit channels of \<^verbatim>\<open>color.RGBA\<close>. An image is its
  bounds and its colour at every point; for a decoded tile the colour is the one that
  \<^verbatim>\<open>draw.Src\<close> stores, that is the tile's colour in the RGBA model of the canvas.
\<close>

datatype RGBA = RGBA "8 word" "8 word" "8 word" "8 word"

record Point =
  X :: int
  Y :: int

record Rectangle =
  MinPt :: Point
  MaxPt :: Point

record Image =
  Bounds :: Rectangle
  At :: "int \<Rightarrow> int \<Rightarrow> RGBA"

text \<open>\<^verbatim>\<open>image.Rect\<close> orders the coordinates.\<close>

definition Rect :: "int \<Rightarrow> int \<Rightarrow> int \<Rightarrow> int \<Rightarrow> Rectangle" where
  "Rect x0 y0 x1 y1 =
     \<lparr>MinPt = \<lparr>X = min x0 x1, Y = min y0 y1\<rparr>, MaxPt = \<lparr>X = max x0 x1, Y = max y0 y1\<rparr>\<rparr>"

text \<open>\<^verbatim>\<open>Point.In\<close>, on the coordinates of the point.\<close>

definition In :: "int \<Rightarrow> int \<Rightarrow> Rectangle \<Rightarrow> bool" where
  "In px py r = (X (MinPt r) \<le> px \<and> px < X (MaxPt r) \<and> Y (MinPt r) \<le> py \<and> py < Y (MaxPt r))"

text \<open>
  \<^verbatim>\<open>image.NewRGBA\<close> panics when the length of the pixel buffer, four bytes for each
  of the \<open>Dx * Dy\<close> pixels, does not fit a 64-bit \<^verbatim>\<open>int\<close> (the length is then
  refused by \<^verbatim>\<open>NewRGBA\<close> itself or, wrapped to a negative number, by \<^verbatim>\<open>make\<close>).
  Otherwise every pixel is transparent black; whether the machine has that much memory
  is not modelled.
\<close>

definition NewRGBA_panics :: "Rectangle \<Rightarrow> bool" where
  "NewRGBA_panics r =
     (4 * (X (MaxPt r) - X (MinPt r)) * (Y (MaxPt r) - Y (MinPt r)) \<ge> 2 ^ 63)"

definition NewRGBA :: "Rectangle \<Rightarrow> Image" where
  "NewRGBA r = \<lparr>Bounds = r, At = (\<lambda>px py. RGBA 0 0 0 0)\<rparr>"

text \<open>
  \<^verbatim>\<open>draw.Draw(dst, r, src, sp, draw.Src)\<close>: \<open>r.Min\<close> in \<open>dst\<close> is aligned with \<open>sp\<close>
  in \<open>src\<close>; \<open>r\<close> is clipped to the bounds of \<open>dst\<close> and to the bounds of \<open>src\<close>
  moved by \<open>r.Min - sp\<close>; every pixel of the clipped rectangle is replaced by the
  pixel of \<open>src\<close> aligned with it, and no other pixel changes.
\<close>

definition Draw_Src :: "Image \<Rightarrow> Rectangle \<Rightarrow> Image \<Rightarrow> Point \<Rightarrow> Image" where
  "Draw_Src dst r src sp =
     dst\<lparr>At := (\<lambda>px py.
        let sx = px - X (MinPt r) + X sp; sy = py - Y (MinPt r) + Y sp
        in if In px py r \<and> In px py (Bounds dst) \<and> In sx sy (Bounds src)
           then At src sx sy else At dst px py)\<rparr>"

subsection \<open>Flags, environment and effects\<close>

record argv =
  help_flag :: bool  \<comment> \<open>\<^verbatim>\<open>argv.help\<close>\<close>
  version :: bool
  ffmpegPath :: string
  heif2hevcPath :: string
  pngCompression :: int
  jpegQuality :: int
  threads :: int
  args :: "string list"  \<comment> \<open>\<^verbatim>\<open>flag.Args()\<close>\<close>

text \<open>
  What the program does to the outside, in order: lines printed on standard error
  (their fixed first words), processes run, the destination created, an image handed
  to an encoder that writes to the created file, the file closed, files removed.
\<close>

datatype event =
    Stderr string
  | Exec string "string list"
  | Create string
  | EncodePNG string int Image
  | EncodeJPEG string int Image
  | Close string
  | Remove string

text \<open>
  The collaborators outside the repository: the two external tools, the process id
  (in decimal), the file system, the PNG decoder, \<^verbatim>\<open>imaging.Rotate\<close> and the two
  encoders. A tool gives \<open>Inl\<close> of its error output when it fails and \<open>Inr\<close> of its
  standard output when it succeeds.
\<close>

record env =
  run_info :: "string \<Rightarrow> string \<Rightarrow> string + string"
  run_heif2hevc :: "string \<Rightarrow> string \<Rightarrow> string \<Rightarrow> string option"
  Getpid :: string
  Glob :: "string \<Rightarrow> string list"
  run_ffmpeg :: "string \<Rightarrow> string \<Rightarrow> string + string"
  png_Decode :: "string \<Rightarrow> Image option"
  Rotate :: "Image \<Rightarrow> int \<Rightarrow> Image"
  os_Create :: "string \<Rightarrow> bool"
  png_Encode :: "int \<Rightarrow> Image \<Rightarrow> bool"
  jpeg_Encode :: "int \<Rightarrow> Image \<Rightarrow> bool"

text \<open>\<^verbatim>\<open>heifGetInfo\<close>: run the info tool, then the read loop over its output.\<close>

definition heifGetInfo :: "env \<Rightarrow> argv \<Rightarrow> string \<Rightarrow> event list \<times> (error + HeifInfo)" where
  "heifGetInfo env a srcFile =
     (case run_info env (heif2hevcPath a) srcFile of
        Inl errout \<Rightarrow>
          ([Exec (heif2hevcPath a) [''-info'', srcFile], Stderr ''heif2hevc -info fail:''],
           Inl (Wrap ''exec heif2hevc -info fail''))
      | Inr out \<Rightarrow>
          ([Exec (heif2hevcPath a) [''-info'', srcFile]], Inr (read_loop zero_HeifInfo out)))"

text \<open>\<^verbatim>\<open>heif2hevc\<close>: the deferred \<^verbatim>\<open>Glob\<close> sets the file list on both paths.\<close>

definition heif2hevc ::
  "env \<Rightarrow> argv \<Rightarrow> string \<Rightarrow> string \<Rightarrow> event list \<times> string list \<times> error option" where
  "heif2hevc env a srcFile dstFile =
     (let dstFileTmp = dstFile @ ''.'' @ Getpid env @ ''.tmp'';
          dstFiles = Glob env (dstFileTmp @ ''*'')
      in case run_heif2hevc env (heif2hevcPath a) srcFile dstFileTmp of
           Some out \<Rightarrow>
             ([Exec (heif2hevcPath a) [srcFile, dstFileTmp], Stderr ''heif2hevc fail:''],
              dstFiles, Some (Wrap ''exec heif2hevc fail''))
         | None \<Rightarrow> ([Exec (heif2hevcPath a) [srcFile, dstFileTmp]], dstFiles, None))"

text \<open>The command line of the decoder for one tile file.\<close>

definition ffmpeg_cmd :: "argv \<Rightarrow> string \<Rightarrow> event" where
  "ffmpeg_cmd a srcFile =
     Exec (ffmpegPath a)
       [''-hide_banner'', ''-f'', ''hevc'', ''-i'', srcFile, ''-f'', ''image2pipe'',
        ''-vcodec'', ''png'', ''-'']"

definition hevc2Image :: "env \<Rightarrow> argv \<Rightarrow> string \<Rightarrow> event list \<times> (error + Image)" where
  "hevc2Image env a srcFile =
     (case run_ffmpeg env (ffmpegPath a) srcFile of
        Inl errout \<Rightarrow>
          ([ffmpeg_cmd a srcFile, Stderr ''ffmpeg fail:''], Inl (Wrap ''ffmpeg fail''))
      | Inr out \<Rightarrow>
          (case png_Decode env out of
             None \<Rightarrow>
               ([ffmpeg_cmd a srcFile, Stderr ''ffmpeg fail:''], Inl (Wrap ''png decode fail''))
           | Some img \<Rightarrow> ([ffmpeg_cmd a srcFile], Inr img)))"

subsection \<open>The job queue\<close>

record QueueItem =
  hevcFile :: string
  item_x :: int  \<comment> \<open>the field \<^verbatim>\<open>x\<close>\<close>
  item_y :: int  \<comment> \<open>the field \<^verbatim>\<open>y\<close>\<close>

text \<open>
  Go's \<^verbatim>\<open>/\<close> and \<^verbatim>\<open>%\<close> on \<^verbatim>\<open>int\<close> truncate towards zero and panic on a zero
  divisor.
\<close>

definition go_quo :: "int \<Rightarrow> int \<Rightarrow> error + int" where
  "go_quo a b = (if b = 0 then Inl DivideByZero else Inr (sgn a * sgn b * (\<bar>a\<bar> div \<bar>b\<bar>)))"

definition go_rem :: "int \<Rightarrow> int \<Rightarrow> error + int" where
  "go_rem a b = (if b = 0 then Inl DivideByZero else Inr (sgn a * (\<bar>a\<bar> mod \<bar>b\<bar>)))"

text \<open>
  The loop that fills the channel, from index \<open>i\<close> on: the items in list order, or
  the panic of the first division.
\<close>

fun fill_queue :: "nat \<Rightarrow> string list \<Rightarrow> int \<Rightarrow> error + QueueItem list" where
  "fill_queue i [] cols = Inr []"
| "fill_queue i (f # fs) cols =
     (case go_rem (int i) cols of
        Inl e \<Rightarrow> Inl e
      | Inr cx \<Rightarrow>
          (case go_quo (int i) cols of
             Inl e \<Rightarrow> Inl e
           | Inr cy \<Rightarrow>
               (case fill_queue (Suc i) fs cols of
                  Inl e \<Rightarrow> Inl e
                | Inr q \<Rightarrow> Inr (\<lparr>hevcFile = f, item_x = cx, item_y = cy\<rparr> # q))))"

subsection \<open>The worker pool\<close>

text \<open>
  A goroutine of the pool is about to receive from the channel, holds an item it has
  received, or has left its loop and called \<^verbatim>\<open>wg.Done\<close>.
\<close>

datatype worker = Receiving | Holding QueueItem | Exited

text \<open>
  The channel, the goroutines, the two variables they share, and what the goroutines
  have done to the outside so far (the decoder runs and their messages).
\<close>

record pool =
  queue :: "QueueItem list"
  workers :: "worker list"
  processError :: "error option"
  dstImg :: Image
  log :: "event list"

text \<open>The destination rectangle of an item, from the bounds of its decoded tile.\<close>

definition tile_rect :: "QueueItem \<Rightarrow> Image \<Rightarrow> Rectangle" where
  "tile_rect f img =
     (let rect = Bounds img;
          min_x = item_x f * X (MaxPt rect);
          min_y = item_y f * Y (MaxPt rect)
      in \<lparr>MinPt = \<lparr>X = min_x, Y = min_y\<rparr>,
          MaxPt = \<lparr>X = X (MaxPt rect) + min_x, Y = Y (MaxPt rect) + min_y\<rparr>\<rparr>)"

text \<open>The body of the worker's loop for one received item.\<close>

definition process_item :: "env \<Rightarrow> argv \<Rightarrow> QueueItem \<Rightarrow> pool \<Rightarrow> pool" where
  "process_item env a f st =
     (case hevc2Image env a (hevcFile f) of
        (evs, Inl err) \<Rightarrow> st\<lparr>processError := Some err, log := log st @ evs\<rparr>
      | (evs, Inr img) \<Rightarrow>
          st\<lparr>dstImg := Draw_Src (dstImg st) (tile_rect f img) img \<lparr>X = 0, Y = 0\<rparr>,
             log := log st @ evs\<rparr>)"

text \<open>
  One step of goroutine \<open>t\<close>: receive the head of the channel (or leave the loop when
  the closed channel is empty), or decode and place the item it holds. A goroutine
  that has exited, or a number that is no goroutine, does nothing. Decoding an item
  and storing its error or drawing its tile is one step: the goroutines interleave
  between items, and of two stores to \<open>processError\<close> the later one stays.
\<close>

definition worker_step :: "env \<Rightarrow> argv \<Rightarrow> nat \<Rightarrow> pool \<Rightarrow> pool" where
  "worker_step env a t st =
     (if t \<ge> length (workers st) then st
      else case workers st ! t of
             Receiving \<Rightarrow>
               (case queue st of
                  [] \<Rightarrow> st\<lparr>workers := (workers st)[t := Exited]\<rparr>
                | f # q \<Rightarrow> st\<lparr>queue := q, workers := (workers st)[t := Holding f]\<rparr>)
           | Holding f \<Rightarrow> (process_item env a f st)\<lparr>workers := (workers st)[t := Receiving]\<rparr>
           | Exited \<Rightarrow> st)"

text \<open>
  A schedule is the order in which the goroutines take their steps. \<^verbatim>\<open>wg.Wait\<close>
  returns once every goroutine has exited.
\<close>

definition run_workers :: "env \<Rightarrow> argv \<Rightarrow> nat list \<Rightarrow> pool \<Rightarrow> pool" where
  "run_workers env a sched st = fold (worker_step env a) sched st"

definition all_exited :: "pool \<Rightarrow> bool" where
  "all_exited st = list_all (\<lambda>w. w = Exited) (workers st)"

text \<open>
  The pool when the goroutines are started: the filled channel, \<open>n\<close> goroutines (none
  when \<open>n\<close> is not positive), no error, the new canvas. \<^verbatim>\<open>main\<close> gets here only
  when the canvas could be made.
\<close>

definition init_pool :: "int \<Rightarrow> QueueItem list \<Rightarrow> HeifInfo \<Rightarrow> pool" where
  "init_pool n q info =
     \<lparr>queue = q, workers = replicate (nat n) Receiving, processError = None,
      dstImg = NewRGBA (Rect 0 0 (Width info) (Height info)), log = []\<rparr>"

subsection \<open>The destination file\<close>

text \<open>\<^verbatim>\<open>filepath.Ext\<close> with the separator \<^verbatim>\<open>/\<close>: scan from the end for a dot.\<close>

fun Ext_scan :: "string \<Rightarrow> string \<Rightarrow> string" where
  "Ext_scan [] suf = []"
| "Ext_scan (c # r) suf =
     (if c = CHR ''/'' then [] else if c = CHR ''.'' then c # suf else Ext_scan r (c # suf))"

definition Ext :: "string \<Rightarrow> string" where
  "Ext path = Ext_scan (rev path) []"

text \<open>
  \<^verbatim>\<open>strings.ToLower\<close> on the ASCII letters. Go also maps letters outside ASCII; none
  of them becomes a character of \<^verbatim>\<open>.png\<close>, \<^verbatim>\<open>.jpg\<close> or \<^verbatim>\<open>.jpeg\<close>, so the switch
  below decides the same.
\<close>

definition lower_byte :: "char \<Rightarrow> char" where
  "lower_byte c =
     (if 65 \<le> (of_char c :: int) \<and> (of_char c :: int) \<le> 90
      then char_of ((of_char c :: int) + 32) else c)"

definition ToLower :: "string \<Rightarrow> string" where
  "ToLower s = map lower_byte s"

datatype format = PNG | JPEG | Unsupported

text \<open>The \<^verbatim>\<open>switch\<close> on the lower-cased extension.\<close>

definition dst_format :: "string \<Rightarrow> format" where
  "dst_format dstFile =
     (let ext = ToLower (Ext dstFile)
      in if ext = ''.png'' then PNG
         else if ext = ''.jpg'' \<or> ext = ''.jpeg'' then JPEG
         else Unsupported)"

text \<open>Creating and writing the destination (the last statement of \<^verbatim>\<open>main\<close>).\<close>

definition write_dst :: "env \<Rightarrow> argv \<Rightarrow> string \<Rightarrow> Image \<Rightarrow> event list" where
  "write_dst env a dstFile img =
     (if \<not> os_Create env dstFile then [Stderr ''Cannot create dst file'']
      else Create dstFile #
        (case dst_format dstFile of
           PNG \<Rightarrow>
             EncodePNG dstFile (pngCompression a) img #
               (if png_Encode env (pngCompression a) img then []
                else [Stderr ''Cannot write dst file''])
         | JPEG \<Rightarrow>
             EncodeJPEG dstFile (jpegQuality a) img #
               (if jpeg_Encode env (jpegQuality a) img then []
                else [Stderr ''Cannot write dst file''])
         | Unsupported \<Rightarrow> [Stderr ''Unsupported dst file extension''])
        @ [Close dstFile])"

subsection \<open>\<^verbatim>\<open>main\<close>\<close>

datatype outcome = Returned | Panicked error

record result =
  outcome :: outcome
  trace :: "event list"

text \<open>A single tile is never split.\<close>

definition single_tile :: "HeifInfo \<Rightarrow> HeifInfo" where
  "single_tile info = (if Tiles info = 1 then info\<lparr>Cols := 1, Rows := 1\<rparr> else info)"

text \<open>The rotation step.\<close>

definition rotate_step :: "env \<Rightarrow> HeifInfo \<Rightarrow> Image \<Rightarrow> Image" where
  "rotate_step env info img =
     (if Rotation info \<noteq> 0 then Rotate env img (Rotation info) else img)"

text \<open>
  What \<^verbatim>\<open>main\<close> holds when \<^verbatim>\<open>wg.Wait\<close> has returned: the flags (the PNG level
  negated), the destination, the grid descriptor, the tile files, what was done
  before the pool started, and the pool.
\<close>

record assembly =
  as_flags :: argv
  as_dst :: string
  as_info :: HeifInfo
  as_files :: "string list"
  as_trace :: "event list"
  as_pool :: pool

text \<open>
  \<^verbatim>\<open>main\<close> up to and including \<^verbatim>\<open>wg.Wait\<close>, under the schedule \<open>sched\<close> of its
  goroutines: \<open>None\<close> when the schedule ends before \<^verbatim>\<open>wg.Wait\<close> can return,
  \<open>Inl\<close> when \<^verbatim>\<open>main\<close> ends before the pool starts: on a flag that asks for the
  version or the usage, on a level out of range or a missing argument, on an error of
  either run of the extraction tool, on the division by zero while filling the
  channel, and on a canvas too large for \<^verbatim>\<open>image.NewRGBA\<close>, which is called after
  the channel is filled and before any goroutine starts. The deferred removal of the
  tile files also runs on a panic.
\<close>

definition assemble :: "env \<Rightarrow> argv \<Rightarrow> nat list \<Rightarrow> (result + assembly) option" where
  "assemble env a0 sched =
     (if version a0
      then Some (Inl \<lparr>outcome = Returned, trace = [Stderr ''heif2png compiled at'']\<rparr>)
      else if help_flag a0 then Some (Inl \<lparr>outcome = Returned, trace = [Stderr ''Usage of'']\<rparr>)
      else if (pngCompression a0 < 0 \<or> pngCompression a0 > 3)
              \<or> (jpegQuality a0 < 0 \<or> jpegQuality a0 > 100)
           then Some (Inl \<lparr>outcome = Returned, trace = [Stderr ''Usage of'']\<rparr>)
      else if length (args a0) < 2
           then Some (Inl \<lparr>outcome = Returned, trace = [Stderr ''Usage of'']\<rparr>)
      else
        let a = a0\<lparr>pngCompression := - pngCompression a0\<rparr>;
            srcFile = args a ! 0;
            dstFile = args a ! 1
        in case heifGetInfo env a srcFile of
             (t1, Inl err) \<Rightarrow> Some (Inl \<lparr>outcome = Panicked err, trace = t1\<rparr>)
           | (t1, Inr info0) \<Rightarrow>
               let info = single_tile info0
               in case heif2hevc env a srcFile dstFile of
                    (t2, hevcFiles, err) \<Rightarrow>
                      (case err of
                         Some e \<Rightarrow>
                           Some (Inl \<lparr>outcome = Panicked e,
                                      trace = t1 @ t2 @ map Remove hevcFiles\<rparr>)
                       | None \<Rightarrow>
                           (case fill_queue 0 hevcFiles (Cols info) of
                              Inl e \<Rightarrow>
                                Some (Inl \<lparr>outcome = Panicked e,
                                           trace = t1 @ t2 @ map Remove hevcFiles\<rparr>)
                            | Inr q \<Rightarrow>
                                if NewRGBA_panics (Rect 0 0 (Width info) (Height info))
                                then Some (Inl \<lparr>outcome = Panicked HugeImage,
                                           trace = t1 @ t2 @ map Remove hevcFiles\<rparr>)
                                else
                                  let st = run_workers env a sched
                                             (init_pool (threads a) q info)
                                  in if \<not> all_exited st then None
                                     else Some (Inr \<lparr>as_flags = a, as_dst = dstFile,
                                            as_info = info, as_files = hevcFiles,
                                            as_trace = t1 @ t2, as_pool = st\<rparr>))))"

text \<open>
  The rest of \<^verbatim>\<open>main\<close>: rotate, create and write the destination, return (and
  remove the tile files).
\<close>

definition finish :: "env \<Rightarrow> assembly \<Rightarrow> result" where
  "finish env s =
     \<lparr>outcome = Returned,
      trace = as_trace s @ log (as_pool s)
        @ write_dst env (as_flags s) (as_dst s)
            (rotate_step env (as_info s) (dstImg (as_pool s)))
        @ map Remove (as_files s)\<rparr>"

definition main :: "env \<Rightarrow> argv \<Rightarrow> nat list \<Rightarrow> result option" where
  "main env a0 sched =
     (case assemble env a0 sched of
        None \<Rightarrow> None
      | Some (Inl r) \<Rightarrow> Some r
      | Some (Inr s) \<Rightarrow> Some (finish env s))"

subsection \<open>Vocabulary of the statements about the metadata\<close>

text \<open>
  The names the read loop recognises; what a line assigns, if anything; a field by its
  name; a stream made of terminated lines and an unterminated rest; the values that the
  lines assign to a field, in the order of the lines; the assignment to a field by its
  name.
\<close>

definition recognized :: "string list" where
  "recognized = [''width'', ''height'', ''rotation'', ''tiles'', ''rows'', ''cols'']"

definition assigned :: "string \<Rightarrow> (string \<times> int) option" where
  "assigned line =
     (case splitInt line of
        None \<Rightarrow> None
      | Some (name, val) \<Rightarrow> if name \<in> set recognized then Some (name, val) else None)"

definition field :: "string \<Rightarrow> HeifInfo \<Rightarrow> int" where
  "field name info =
     (if name = ''width'' then Width info
      else if name = ''height'' then Height info
      else if name = ''rotation'' then Rotation info
      else if name = ''tiles'' then Tiles info
      else if name = ''rows'' then Rows info
      else if name = ''cols'' then Cols info
      else 0)"

definition terminated :: "string list \<Rightarrow> string list" where
  "terminated ls = map (\<lambda>l. l @ [CHR 0x0A]) ls"

definition stream :: "string list \<Rightarrow> string \<Rightarrow> string" where
  "stream ls rest = concat (terminated ls) @ rest"

definition values_of :: "string \<Rightarrow> string list \<Rightarrow> int list" where
  "values_of name ls = map snd (filter (\<lambda>p. fst p = name) (List.map_filter assigned ls))"

definition set_named :: "string \<Rightarrow> int \<Rightarrow> HeifInfo \<Rightarrow> HeifInfo" where
  "set_named name val info =
     (if name = ''width'' then info\<lparr>Width := val\<rparr>
      else if name = ''height'' then info\<lparr>Height := val\<rparr>
      else if name = ''rotation'' then info\<lparr>Rotation := val\<rparr>
      else if name = ''tiles'' then info\<lparr>Tiles := val\<rparr>
      else if name = ''rows'' then info\<lparr>Rows := val\<rparr>
      else if name = ''cols'' then info\<lparr>Cols := val\<rparr>
      else info)"

subsection \<open>Vocabulary of the statements about the pool\<close>

text \<open>
  The part of a pool that the items change (the error slot, the canvas and the log);
  the items that the goroutines hold; a pool in which a goroutine has exited only if
  the channel is empty; the events that run a process; the error of decoding an item;
  the colour that an item writes at a point, if any; tile files that all decode, to
  bitmaps of one size; the image an event hands to an encoder; the schedule in which
  goroutine 0 handles all \<open>k\<close> items and then every goroutine exits.
\<close>

definition core :: "pool \<Rightarrow> pool" where
  "core st = st\<lparr>queue := [], workers := []\<rparr>"

definition holding :: "worker \<Rightarrow> QueueItem multiset" where
  "holding w = (case w of Holding f \<Rightarrow> {#f#} | _ \<Rightarrow> {#})"

definition held :: "worker list \<Rightarrow> QueueItem multiset" where
  "held ws = sum_list (map holding ws)"

definition drained :: "pool \<Rightarrow> bool" where
  "drained st = (Exited \<in> set (workers st) \<longrightarrow> queue st = [])"

definition is_Exec :: "event \<Rightarrow> bool" where
  "is_Exec e = (case e of Exec p as \<Rightarrow> True | _ \<Rightarrow> False)"

definition decode_error :: "env \<Rightarrow> argv \<Rightarrow> QueueItem \<Rightarrow> error option" where
  "decode_error env a f =
     (case snd (hevc2Image env a (hevcFile f)) of Inl e \<Rightarrow> Some e | Inr img \<Rightarrow> None)"

definition tile_px :: "env \<Rightarrow> argv \<Rightarrow> QueueItem \<Rightarrow> int \<Rightarrow> int \<Rightarrow> RGBA option" where
  "tile_px env a f px py =
     (case snd (hevc2Image env a (hevcFile f)) of
        Inl e \<Rightarrow> None
      | Inr img \<Rightarrow>
          let r = tile_rect f img; sx = px - X (MinPt r); sy = py - Y (MinPt r)
          in if In px py r \<and> In sx sy (Bounds img) then Some (At img sx sy) else None)"

definition uniform_tiles ::
  "env \<Rightarrow> argv \<Rightarrow> string list \<Rightarrow> (string \<Rightarrow> Image) \<Rightarrow> int \<Rightarrow> int \<Rightarrow> bool" where
  "uniform_tiles env a files tiles w h =
     (\<forall>f \<in> set files. snd (hevc2Image env a f) = Inr (tiles f)
        \<and> Bounds (tiles f) = \<lparr>MinPt = \<lparr>X = 0, Y = 0\<rparr>, MaxPt = \<lparr>X = w, Y = h\<rparr>\<rparr>)"

definition encoded :: "event \<Rightarrow> Image option" where
  "encoded e =
     (case e of EncodePNG d l img \<Rightarrow> Some img | EncodeJPEG d l img \<Rightarrow> Some img | _ \<Rightarrow> None)"

definition sequential :: "int \<Rightarrow> nat \<Rightarrow> nat list" where
  "sequential n k = replicate (2 * k + 1) 0 @ [0..<nat n]"

subsection \<open>Example runs\<close>

text \<open>
  An environment in which both tools succeed, the process id is 7, the decoder's
  output for a tile file is the name of the file and the given function decodes it,
  rotation is the identity and every file operation succeeds; flags with the default
  levels; tiles of one colour; metadata texts and the queues built from them.
\<close>

definition solid :: "int \<Rightarrow> int \<Rightarrow> RGBA \<Rightarrow> Image" where
  "solid w h c =
     \<lparr>Bounds = \<lparr>MinPt = \<lparr>X = 0, Y = 0\<rparr>, MaxPt = \<lparr>X = w, Y = h\<rparr>\<rparr>, At = (\<lambda>px py. c)\<rparr>"

definition example_env :: "string \<Rightarrow> string list \<Rightarrow> (string \<Rightarrow> Image option) \<Rightarrow> env" where
  "example_env out files decode =
     \<lparr>run_info = (\<lambda>path src. Inr out),
      run_heif2hevc = (\<lambda>path src tmp. None),
      Getpid = ''7'',
      Glob = (\<lambda>pattern. files),
      run_ffmpeg = (\<lambda>path file. Inr file),
      png_Decode = decode,
      Rotate = (\<lambda>img angle. img),
      os_Create = (\<lambda>file. True),
      png_Encode = (\<lambda>level img. True),
      jpeg_Encode = (\<lambda>quality img. True)\<rparr>"

definition example_argv :: "int \<Rightarrow> string \<Rightarrow> argv" where
  "example_argv n dst =
     \<lparr>help_flag = False, version = False, ffmpegPath = ''ffmpeg'',
      heif2hevcPath = ''heif2hevc'', pngCompression = 0, jpegQuality = 90, threads = n,
      args = [''in.heic'', dst]\<rparr>"

definition red_blue :: "string \<Rightarrow> Image" where
  "red_blue file = (if file = ''t0'' then solid 2 2 (RGBA 255 0 0 255)
                    else solid 2 2 (RGBA 0 0 255 255))"

definition wide_red_blue :: "string \<Rightarrow> Image" where
  "wide_red_blue file = (if file = ''t0'' then solid 4 2 (RGBA 255 0 0 255)
                         else solid 2 2 (RGBA 0 0 255 255))"

definition fail_first :: "string \<Rightarrow> Image option" where
  "fail_first b = (if b = ''t0'' then None else Some (solid 2 2 (RGBA 0 0 255 255)))"

definition grid_2x1 :: HeifInfo where
  "grid_2x1 = \<lparr>Width = 4, Height = 2, Rotation = 0, Tiles = 2, Rows = 1, Cols = 2\<rparr>"

definition grid_text :: string where
  "grid_text = ''width=4\<newline>height=2\<newline>tiles=2\<newline>rows=1\<newline>cols=2\<newline>''"

definition single_text :: string where
  "single_text = ''width=2\<newline>height=2\<newline>tiles=1\<newline>rows=6\<newline>cols=0\<newline>''"

definition no_cols_text :: string where
  "no_cols_text = ''width=4\<newline>height=2\<newline>tiles=2\<newline>''"

definition neg_cols_text :: string where
  "neg_cols_text = ''width=4\<newline>height=2\<newline>tiles=2\<newline>rows=-1\<newline>cols=-2\<newline>''"

definition red_blue_queue :: "QueueItem list" where
  "red_blue_queue = [\<lparr>hevcFile = ''t0'', item_x = 0, item_y = 0\<rparr>,
                     \<lparr>hevcFile = ''t1'', item_x = 1, item_y = 0\<rparr>]"

definition single_queue :: "QueueItem list" where
  "single_queue = [\<lparr>hevcFile = ''t0'', item_x = 0, item_y = 0\<rparr>]"

definition example_assembly ::
  "string \<Rightarrow> string list \<Rightarrow> (string \<Rightarrow> Image option) \<Rightarrow> int \<Rightarrow> string \<Rightarrow> nat list
     \<Rightarrow> QueueItem list \<Rightarrow> assembly" where
  "example_assembly out files decode n dst sched q =
     \<lparr>as_flags = example_argv n dst, as_dst = dst,
      as_info = single_tile (read_loop zero_HeifInfo out), as_files = files,
      as_trace = [Exec ''heif2hevc'' [''-info'', ''in.heic''],
                  Exec ''heif2hevc'' [''in.heic'', dst @ ''.7.tmp'']],
      as_pool = run_workers (example_env out files decode) (example_argv n dst) sched
                  (init_pool n q (single_tile (read_loop zero_HeifInfo out)))\<rparr>"

section \<open>Lemmas\<close>

subsection \<open>The read loop\<close>

lemma IndexByte_None: "IndexByte s c = None \<longleftrightarrow> c \<notin> set s"
  by (induction s) auto

lemma IndexByte_first: "c \<notin> set l \<Longrightarrow> IndexByte (l @ c # r) c = Some (length l)"
  by (induction l) auto

lemma ReadBytes_line:
  "c \<notin> set l \<Longrightarrow> ReadBytes (l @ c # r) c = (l @ [c], False, r)"
  by (simp add: ReadBytes_def IndexByte_first)

lemma ReadBytes_eof: "c \<notin> set r \<Longrightarrow> ReadBytes r c = (r, True, [])"
  using IndexByte_None [of r c] by (simp add: ReadBytes_def)

lemma read_loop_stream:
  assumes "\<forall>l \<in> set ls. CHR 0x0A \<notin> set l" and "CHR 0x0A \<notin> set rest"
  shows "read_loop info (stream ls rest) = fold (\<lambda>l i. assign_line i l) (terminated ls) info"
  using assms(1)
proof (induction ls arbitrary: info)
  case Nil
  show ?case
    using ReadBytes_eof [OF assms(2)]
    by (simp add: stream_def terminated_def read_loop.simps)
next
  case (Cons l ls)
  have nl: "CHR 0x0A \<notin> set l" using Cons.prems by simp
  have "stream (l # ls) rest = l @ CHR 0x0A # stream ls rest"
    by (simp add: stream_def terminated_def)
  then have "read_loop info (stream (l # ls) rest)
      = read_loop (assign_line info (l @ [CHR 0x0A])) (stream ls rest)"
    using ReadBytes_line [OF nl, of "stream ls rest"]
    by (subst read_loop.simps) simp
  then show ?case using Cons by (simp add: terminated_def)
qed

lemma assign_line_Some:
  "splitInt line = Some (name, val) \<Longrightarrow> assign_line info line = set_named name val info"
  by (simp add: assign_line_def set_named_def)

lemma assign_line_None: "splitInt line = None \<Longrightarrow> assign_line info line = info"
  by (simp add: assign_line_def)

lemma recognized_cases:
  obtains "name = ''width''" | "name = ''height''" | "name = ''rotation''" | "name = ''tiles''"
    | "name = ''rows''" | "name = ''cols''" | "name \<notin> set recognized"
  unfolding recognized_def by fastforce

lemma set_named_unrecognized: "name \<notin> set recognized \<Longrightarrow> set_named name val info = info"
  by (simp add: set_named_def recognized_def)

lemma field_unrecognized: "name \<notin> set recognized \<Longrightarrow> field name info = 0"
  by (simp add: field_def recognized_def)

lemma field_set_named_same:
  "name \<in> set recognized \<Longrightarrow> field name (set_named name val info) = val"
  by (cases name rule: recognized_cases) (simp_all add: field_def set_named_def)

lemma field_set_named_other:
  "m \<noteq> name \<Longrightarrow> field name (set_named m val info) = field name info"
proof (cases m rule: recognized_cases)
  case 7
  then show ?thesis by (simp add: set_named_unrecognized)
qed (cases name rule: recognized_cases; simp add: field_def set_named_def recognized_def)+

lemma info_eqI:
  assumes "\<And>name. name \<in> set recognized \<Longrightarrow> field name i1 = field name i2"
  shows "i1 = (i2 :: HeifInfo)"
proof -
  have "field ''width'' i1 = field ''width'' i2" "field ''height'' i1 = field ''height'' i2"
    "field ''rotation'' i1 = field ''rotation'' i2" "field ''tiles'' i1 = field ''tiles'' i2"
    "field ''rows'' i1 = field ''rows'' i2" "field ''cols'' i1 = field ''cols'' i2"
    by (rule assms, simp add: recognized_def)+
  then show ?thesis by (simp add: field_def)
qed

lemma assign_line_assigned:
  "assign_line info line =
     (case assigned line of None \<Rightarrow> info | Some (name, val) \<Rightarrow> set_named name val info)"
  by (auto simp: assigned_def assign_line_None assign_line_Some set_named_unrecognized
      split: option.splits)

lemma assigned_recognized: "assigned line = Some (name, val) \<Longrightarrow> name \<in> set recognized"
  by (auto simp: assigned_def split: option.splits if_splits)

lemma field_assign_line:
  "field name (assign_line info line) =
     (case assigned line of
        None \<Rightarrow> field name info
      | Some (m, val) \<Rightarrow> if m = name then val else field name info)"
  using assigned_recognized [of line]
  by (auto simp: assign_line_assigned field_set_named_same field_set_named_other
      split: option.splits)

lemma assign_line_skip: "assigned line = None \<Longrightarrow> assign_line info line = info"
  by (simp add: assign_line_assigned)

lemma fold_assign_filter:
  "fold (\<lambda>l i. assign_line i l) [l \<leftarrow> ls. assigned l \<noteq> None] info
     = fold (\<lambda>l i. assign_line i l) ls info"
proof (induction ls arbitrary: info)
  case Nil
  show ?case by simp
next
  case (Cons l ls)
  show ?case
  proof (cases "assigned l")
    case None
    then show ?thesis using Cons by (simp add: assign_line_skip)
  next
    case (Some p)
    then show ?thesis using Cons by simp
  qed
qed

lemma field_fold_other:
  "\<forall>l \<in> set ls. map_option fst (assigned l) \<noteq> Some name \<Longrightarrow>
     field name (fold (\<lambda>l i. assign_line i l) ls info) = field name info"
proof (induction ls arbitrary: info)
  case Nil
  show ?case by simp
next
  case (Cons l ls)
  from Cons.prems have "map_option fst (assigned l) \<noteq> Some name" by simp
  then have "field name (assign_line info l) = field name info"
    by (auto simp: field_assign_line split: option.splits)
  with Cons show ?case by simp
qed

lemma field_zero: "field name zero_HeifInfo = 0"
  by (simp add: field_def zero_HeifInfo_def)

lemma assign_line_commute:
  assumes "map_option fst (assigned l1) \<noteq> map_option fst (assigned l2) \<or> l1 = l2"
  shows "assign_line (assign_line info l1) l2 = assign_line (assign_line info l2) l1"
proof (cases "l1 = l2")
  case True
  then show ?thesis by simp
next
  case False
  with assms have ne: "map_option fst (assigned l1) \<noteq> map_option fst (assigned l2)" by simp
  show ?thesis
  proof (rule info_eqI)
    fix name
    show "field name (assign_line (assign_line info l1) l2)
        = field name (assign_line (assign_line info l2) l1)"
      using ne by (auto simp: field_assign_line split: option.splits)
  qed
qed

lemma distinct_names_differ:
  assumes "distinct (map fst (List.map_filter assigned ls))"
    and "l1 \<in> set ls" "l2 \<in> set ls" "l1 \<noteq> l2"
    and "assigned l1 \<noteq> None \<or> assigned l2 \<noteq> None"
  shows "map_option fst (assigned l1) \<noteq> map_option fst (assigned l2)"
  using assms
proof (induction ls)
  case Nil
  then show ?case by simp
next
  case (Cons l ls)
  have mem: "\<And>k n v. k \<in> set ls \<Longrightarrow> assigned k = Some (n, v)
      \<Longrightarrow> n \<in> fst ` set (List.map_filter assigned ls)"
    by (force simp: map_filter_def)
  show ?case
  proof (cases "assigned l")
    case None
    with Cons show ?thesis
      by (cases "l1 = l"; cases "l2 = l") (auto simp: map_filter_simps)
  next
    case (Some p)
    obtain n v where p: "p = (n, v)" by (cases p)
    from Cons.prems(1) Some p
    have d: "n \<notin> fst ` set (List.map_filter assigned ls)"
      "distinct (map fst (List.map_filter assigned ls))"
      by (simp_all add: map_filter_simps)
    show ?thesis
    proof (cases "l1 = l")
      case True
      with Cons.prems have "l2 \<in> set ls" by auto
      with d(1) mem have "\<forall>v'. assigned l2 \<noteq> Some (n, v')" by blast
      with True Some p show ?thesis by (cases "assigned l2") auto
    next
      case l1: False
      show ?thesis
      proof (cases "l2 = l")
        case True
        with Cons.prems l1 have "l1 \<in> set ls" by auto
        with d(1) mem have "\<forall>v'. assigned l1 \<noteq> Some (n, v')" by blast
        with True Some p show ?thesis by (cases "assigned l1") auto
      next
        case False
        with l1 Cons.prems d(2) Cons.IH show ?thesis by auto
      qed
    qed
  qed
qed

lemma fold_assign_permute:
  assumes "mset ls' = mset ls" and "distinct (map fst (List.map_filter assigned ls))"
  shows "fold (\<lambda>l i. assign_line i l) ls' info = fold (\<lambda>l i. assign_line i l) ls info"
proof -
  have "fold (\<lambda>l i. assign_line i l) ls = fold (\<lambda>l i. assign_line i l) ls'"
  proof (rule fold_multiset_equiv)
    fix l1 l2
    assume m: "l1 \<in> set ls" "l2 \<in> set ls"
    have "assign_line (assign_line i l2) l1 = assign_line (assign_line i l1) l2" for i
    proof (cases "l1 = l2 \<or> (assigned l1 = None \<and> assigned l2 = None)")
      case True
      then show ?thesis by (auto simp: assign_line_skip)
    next
      case False
      with distinct_names_differ [OF assms(2) m] show ?thesis
        by (intro assign_line_commute) auto
    qed
    then show "(\<lambda>i. assign_line i l1) \<circ> (\<lambda>i. assign_line i l2)
        = (\<lambda>i. assign_line i l2) \<circ> (\<lambda>i. assign_line i l1)"
      by (simp add: fun_eq_iff)
  next
    show "mset ls = mset ls'" using assms(1) by simp
  qed
  then show ?thesis by simp
qed

lemma values_of_snoc:
  "values_of name (ls @ [l])
     = values_of name ls
       @ (case assigned l of None \<Rightarrow> [] | Some (m, v) \<Rightarrow> if m = name then [v] else [])"
  by (simp add: values_of_def map_filter_def split: option.splits)

lemma field_fold_values:
  "field name (fold (\<lambda>l i. assign_line i l) ls info)
     = (if values_of name ls = [] then field name info else last (values_of name ls))"
proof (induction ls rule: rev_induct)
  case Nil
  show ?case by (simp add: values_of_def map_filter_simps)
next
  case (snoc l ls)
  show ?case
  proof (cases "assigned l")
    case None
    with snoc show ?thesis by (simp add: values_of_snoc field_assign_line)
  next
    case (Some p)
    obtain m v where "p = (m, v)" by (cases p)
    with Some snoc show ?thesis by (simp add: values_of_snoc field_assign_line)
  qed
qed

subsection \<open>The worker pool: which items are processed\<close>

lemma process_item_queue [simp]: "queue (process_item env a f st) = queue st"
  by (simp add: process_item_def split: prod.splits sum.splits)

lemma process_item_workers [simp]: "workers (process_item env a f st) = workers st"
  by (simp add: process_item_def split: prod.splits sum.splits)

lemma process_item_core: "core (process_item env a f st) = process_item env a f (core st)"
  by (simp add: process_item_def core_def split: prod.splits sum.splits)

lemma core_fields [simp]:
  "dstImg (core st) = dstImg st" "log (core st) = log st"
  "processError (core st) = processError st"
  by (simp_all add: core_def)

lemma core_update [simp]:
  "core (st\<lparr>queue := q\<rparr>) = core st" "core (st\<lparr>workers := ws\<rparr>) = core st"
  by (simp_all add: core_def)

lemma held_update:
  "t < length ws \<Longrightarrow> held (ws[t := w]) + holding (ws ! t) = held ws + holding w"
proof (induction ws arbitrary: t)
  case Nil
  then show ?case by simp
next
  case (Cons x ws)
  show ?case
  proof (cases t)
    case 0
    then show ?thesis by (simp add: held_def ac_simps)
  next
    case (Suc k)
    with Cons.prems have "k < length ws" by simp
    from Cons.IH [OF this] Suc show ?thesis
      by (simp add: held_def ac_simps)
  qed
qed

lemma worker_step_items:
  "\<exists>ds. core (worker_step env a t st) = fold (process_item env a) ds (core st)
     \<and> mset ds + held (workers (worker_step env a t st)) + mset (queue (worker_step env a t st))
       = held (workers st) + mset (queue st)"
proof (cases "t < length (workers st)")
  case False
  then have "worker_step env a t st = st" by (simp add: worker_step_def)
  then show ?thesis by (intro exI [of _ "[]"]) simp
next
  case True
  note hu = held_update [OF True]
  show ?thesis
  proof (cases "workers st ! t")
    case Receiving
    show ?thesis
    proof (cases "queue st")
      case Nil
      with Receiving True hu [of Exited] show ?thesis
        by (intro exI [of _ "[]"]) (simp add: worker_step_def holding_def)
    next
      case (Cons f q)
      with Receiving True hu [of "Holding f"] show ?thesis
        by (intro exI [of _ "[]"]) (simp add: worker_step_def holding_def)
    qed
  next
    case (Holding f)
    with True hu [of Receiving] show ?thesis
      by (intro exI [of _ "[f]"]) (simp add: worker_step_def holding_def process_item_core)
  next
    case Exited
    with True show ?thesis
      by (intro exI [of _ "[]"]) (simp add: worker_step_def)
  qed
qed

lemma run_workers_Nil [simp]: "run_workers env a [] st = st"
  by (simp add: run_workers_def)

lemma run_workers_Cons [simp]:
  "run_workers env a (t # ts) st = run_workers env a ts (worker_step env a t st)"
  by (simp add: run_workers_def)

lemma run_workers_items:
  "\<exists>ds. core (run_workers env a sched st) = fold (process_item env a) ds (core st)
     \<and> mset ds + held (workers (run_workers env a sched st))
         + mset (queue (run_workers env a sched st))
       = held (workers st) + mset (queue st)"
proof (induction sched arbitrary: st)
  case Nil
  show ?case by (intro exI [of _ "[]"]) simp
next
  case (Cons t ts)
  let ?st1 = "worker_step env a t st"
  let ?st2 = "run_workers env a ts ?st1"
  obtain ds1 where 1: "core ?st1 = fold (process_item env a) ds1 (core st)"
    "mset ds1 + held (workers ?st1) + mset (queue ?st1) = held (workers st) + mset (queue st)"
    using worker_step_items by blast
  obtain ds2 where 2: "core ?st2 = fold (process_item env a) ds2 (core ?st1)"
    "mset ds2 + held (workers ?st2) + mset (queue ?st2)
       = held (workers ?st1) + mset (queue ?st1)"
    using Cons.IH by blast
  have "core ?st2 = fold (process_item env a) (ds1 @ ds2) (core st)"
    using 1(1) 2(1) by simp
  moreover have "mset (ds1 @ ds2) + held (workers ?st2) + mset (queue ?st2)
      = held (workers st) + mset (queue st)"
    using 1(2) 2(2) by (simp add: ac_simps)
  ultimately show ?case
    by (intro exI [of _ "ds1 @ ds2"]) simp
qed

lemma worker_step_length [simp]:
  "length (workers (worker_step env a t st)) = length (workers st)"
  by (simp add: worker_step_def split: worker.splits list.splits)

lemma run_workers_length [simp]:
  "length (workers (run_workers env a sched st)) = length (workers st)"
  by (induction sched arbitrary: st) simp_all

lemma worker_step_drained: "drained st \<Longrightarrow> drained (worker_step env a t st)"
proof (cases "t < length (workers st)")
  case False
  assume "drained st"
  with False show ?thesis by (simp add: worker_step_def)
next
  case True
  assume d: "drained st"
  have sub: "set ((workers st)[t := w]) \<subseteq> insert w (set (workers st))" for w
    by (rule set_update_subset_insert)
  show ?thesis
  proof (cases "workers st ! t")
    case Receiving
    show ?thesis
    proof (cases "queue st")
      case Nil
      with Receiving True show ?thesis by (simp add: worker_step_def drained_def)
    next
      case (Cons f q)
      with d have "Exited \<notin> set (workers st)" by (simp add: drained_def)
      with sub [of "Holding f"] have "Exited \<notin> set ((workers st)[t := Holding f])" by auto
      with Receiving True Cons show ?thesis by (simp add: worker_step_def drained_def)
    qed
  next
    case (Holding f)
    have "Exited \<in> set ((workers st)[t := Receiving]) \<Longrightarrow> Exited \<in> set (workers st)"
      using sub [of Receiving] by auto
    with d Holding True show ?thesis by (auto simp: worker_step_def drained_def)
  next
    case Exited
    with d True show ?thesis by (simp add: worker_step_def)
  qed
qed

lemma run_workers_drained: "drained st \<Longrightarrow> drained (run_workers env a sched st)"
  by (induction sched arbitrary: st) (simp_all add: worker_step_drained)

lemma held_all_exited: "list_all (\<lambda>w. w = Exited) ws \<Longrightarrow> held ws = {#}"
  by (induction ws) (simp_all add: held_def holding_def)

lemma held_replicate_Receiving: "held (replicate k Receiving) = {#}"
  by (induction k) (simp_all add: held_def holding_def)

lemma init_pool_fields [simp]:
  "queue (init_pool n q info) = q"
  "workers (init_pool n q info) = replicate (nat n) Receiving"
  "processError (init_pool n q info) = None"
  "dstImg (init_pool n q info) = NewRGBA (Rect 0 0 (Width info) (Height info))"
  "log (init_pool n q info) = []"
  by (simp_all add: init_pool_def)

lemma pool_finished:
  assumes "all_exited (run_workers env a sched (init_pool n q info))" and "1 \<le> n"
  shows "\<exists>ds. mset ds = mset q
     \<and> core (run_workers env a sched (init_pool n q info))
       = fold (process_item env a) ds (core (init_pool n q info))"
proof -
  let ?ini = "init_pool n q info"
  let ?st = "run_workers env a sched ?ini"
  have "drained ?ini" by (simp add: drained_def)
  then have d: "drained ?st" by (rule run_workers_drained)
  have "length (workers ?st) = nat n" by simp
  with assms(2) obtain w ws where ws: "workers ?st = w # ws"
    by (cases "workers ?st") auto
  with assms(1) have "w = Exited" by (simp add: all_exited_def)
  with ws have "Exited \<in> set (workers ?st)" by simp
  with d have q: "queue ?st = []" unfolding drained_def by blast
  from assms(1) have h: "held (workers ?st) = {#}"
    by (simp add: all_exited_def held_all_exited)
  obtain ds where ds: "core ?st = fold (process_item env a) ds (core ?ini)"
    "mset ds + held (workers ?st) + mset (queue ?st) = held (workers ?ini) + mset (queue ?ini)"
    using run_workers_items by blast
  from ds(2) q h have "mset ds = mset q" by (simp add: held_replicate_Receiving)
  with ds(1) show ?thesis by blast
qed

lemma pool_no_workers:
  "n \<le> 0 \<Longrightarrow> run_workers env a sched (init_pool n q info) = init_pool n q info"
proof (induction sched)
  case Nil
  show ?case by simp
next
  case (Cons t ts)
  then show ?case by (simp add: worker_step_def)
qed

subsection \<open>The worker pool: logs, errors and a complete schedule\<close>

lemma hevc2Image_events:
  "fst (hevc2Image env a f)
     = ffmpeg_cmd a f # (if isl (snd (hevc2Image env a f)) then [Stderr ''ffmpeg fail:''] else [])"
  by (simp add: hevc2Image_def split: sum.splits option.splits)

lemma process_item_log:
  "log (process_item env a f st) = log st @ fst (hevc2Image env a (hevcFile f))"
  by (simp add: process_item_def split: prod.splits sum.splits)

lemma process_item_error:
  "processError (process_item env a f st)
     = (case decode_error env a f of Some e \<Rightarrow> Some e | None \<Rightarrow> processError st)"
  by (simp add: process_item_def decode_error_def split: prod.splits sum.splits)

lemma fold_items_log:
  "log (fold (process_item env a) ds st)
     = log st @ concat (map (\<lambda>f. fst (hevc2Image env a (hevcFile f))) ds)"
  by (induction ds arbitrary: st) (simp_all add: process_item_log)

lemma is_Exec_events:
  "filter is_Exec (fst (hevc2Image env a f)) = [ffmpeg_cmd a f]"
  by (simp add: hevc2Image_events is_Exec_def ffmpeg_cmd_def)

lemma fold_items_execs:
  "filter is_Exec (log (fold (process_item env a) ds st))
     = filter is_Exec (log st) @ map (\<lambda>f. ffmpeg_cmd a (hevcFile f)) ds"
  by (induction ds arbitrary: st) (simp_all add: process_item_log is_Exec_events)

lemma fold_items_fail_logged:
  "Stderr ''ffmpeg fail:'' \<in> set (log (fold (process_item env a) ds st))
     \<longleftrightarrow> Stderr ''ffmpeg fail:'' \<in> set (log st) \<or> (\<exists>f \<in> set ds. decode_error env a f \<noteq> None)"
  by (induction ds arbitrary: st)
     (auto simp: process_item_log hevc2Image_events decode_error_def ffmpeg_cmd_def
       split: sum.splits if_splits)

lemma fold_items_error:
  "\<exists>f \<in> set ds. decode_error env a f \<noteq> None \<Longrightarrow>
     \<exists>f \<in> set ds. decode_error env a f \<noteq> None
        \<and> processError (fold (process_item env a) ds st) = decode_error env a f"
proof (induction ds arbitrary: st rule: rev_induct)
  case Nil
  then show ?case by simp
next
  case (snoc f ds)
  show ?case
  proof (cases "decode_error env a f")
    case None
    with snoc.prems have "\<exists>g \<in> set ds. decode_error env a g \<noteq> None" by auto
    from snoc.IH [OF this, of st] None show ?thesis
      by (auto simp: process_item_error)
  next
    case (Some e)
    then show ?thesis by (auto simp: process_item_error)
  qed
qed

lemma fold_items_no_error:
  "\<forall>f \<in> set ds. decode_error env a f = None \<Longrightarrow>
     processError (fold (process_item env a) ds st) = processError st"
  by (induction ds arbitrary: st) (simp_all add: process_item_error)

lemma pool_eqI:
  "core s = core t \<Longrightarrow> queue s = queue t \<Longrightarrow> workers s = workers t \<Longrightarrow> s = (t :: pool)"
  by (cases s; cases t) (simp add: core_def)

lemma worker0_drains:
  assumes "workers st ! 0 = Receiving" and "workers st \<noteq> []"
  shows "core (run_workers env a (replicate (2 * length (queue st) + 1) 0) st)
           = fold (process_item env a) (queue st) (core st)
       \<and> queue (run_workers env a (replicate (2 * length (queue st) + 1) 0) st) = []
       \<and> workers (run_workers env a (replicate (2 * length (queue st) + 1) 0) st)
           = (workers st)[0 := Exited]"
  using assms
proof (induction "queue st" arbitrary: st)
  case Nil
  then have "worker_step env a 0 st = st\<lparr>workers := (workers st)[0 := Exited]\<rparr>"
    by (simp add: worker_step_def)
  with Nil(1) [symmetric] show ?case by simp
next
  case (Cons f q)
  define st1 where "st1 = worker_step env a 0 st"
  define st2 where "st2 = worker_step env a 0 st1"
  from Cons.prems Cons.hyps(2) [symmetric]
  have 1: "st1 = st\<lparr>queue := q, workers := (workers st)[0 := Holding f]\<rparr>"
    by (simp add: st1_def worker_step_def)
  from Cons.prems have l: "0 < length (workers st)" by simp
  have "(workers st)[0 := Receiving] = workers st"
    using Cons.prems(1) by (metis list_update_id)
  then have 2: "st2 = (process_item env a f st1)\<lparr>workers := workers st\<rparr>"
    using l by (simp add: st2_def 1 worker_step_def)
  have q2: "q = queue st2" by (simp add: 2 1)
  have w2: "workers st2 = workers st" by (simp add: 2)
  have c2: "core st2 = process_item env a f (core st)"
    by (simp add: 2 1 process_item_core)
  have rep: "replicate (2 * length (queue st) + 1) 0
      = 0 # 0 # replicate (2 * length q + 1) (0::nat)"
    using Cons.hyps(2) [symmetric] by simp
  have run: "run_workers env a (replicate (2 * length (queue st) + 1) 0) st
      = run_workers env a (replicate (2 * length q + 1) 0) st2"
    unfolding rep st1_def st2_def by (simp only: run_workers_Cons)
  from Cons.prems w2 have p: "workers st2 ! 0 = Receiving" "workers st2 \<noteq> []" by simp_all
  from Cons.hyps(1) [OF q2 p]
  have "core (run_workers env a (replicate (2 * length q + 1) 0) st2)
           = fold (process_item env a) q (core st2)
       \<and> queue (run_workers env a (replicate (2 * length q + 1) 0) st2) = []
       \<and> workers (run_workers env a (replicate (2 * length q + 1) 0) st2)
           = (workers st)[0 := Exited]"
    by (simp add: q2 [symmetric] w2)
  then show ?case
    unfolding run c2 using Cons.hyps(2) [symmetric] by simp
qed

lemma workers_exit:
  assumes "queue st = []" and "\<forall>w \<in> set (workers st). w = Receiving \<or> w = Exited"
  shows "core (run_workers env a ts st) = core st
       \<and> queue (run_workers env a ts st) = []
       \<and> length (workers (run_workers env a ts st)) = length (workers st)
       \<and> (\<forall>i < length (workers st). workers (run_workers env a ts st) ! i
             = (if i \<in> set ts then Exited else workers st ! i))"
  using assms
proof (induction ts arbitrary: st)
  case Nil
  then show ?case by simp
next
  case (Cons t ts)
  let ?st1 = "worker_step env a t st"
  have 1: "?st1 = (if t < length (workers st) then st\<lparr>workers := (workers st)[t := Exited]\<rparr>
                   else st)"
  proof (cases "t < length (workers st)")
    case True
    with Cons.prems(2) have "workers st ! t = Receiving \<or> workers st ! t = Exited"
      by simp
    with True Cons.prems(1) show ?thesis
      by (auto simp: worker_step_def list_update_same_conv [THEN iffD2] intro: pool_eqI)
  next
    case False
    then show ?thesis by (simp add: worker_step_def)
  qed
  have q1: "queue ?st1 = []" using Cons.prems(1) unfolding 1 by simp
  have w1: "\<forall>w \<in> set (workers ?st1). w = Receiving \<or> w = Exited"
    using Cons.prems(2) set_update_subset_insert [of "workers st" t Exited]
    unfolding 1 by auto
  have c1: "core ?st1 = core st" unfolding 1 by simp
  have l1: "length (workers ?st1) = length (workers st)" by simp
  from Cons.IH [OF q1 w1] show ?case
    unfolding run_workers_Cons c1 l1
    by (auto simp: 1 nth_list_update)
qed

lemma sequential_run:
  assumes "1 \<le> n"
  shows "all_exited (run_workers env a (replicate (2 * length q + 1) 0 @ [0..<nat n])
           (init_pool n q info))
       \<and> core (run_workers env a (replicate (2 * length q + 1) 0 @ [0..<nat n])
           (init_pool n q info))
         = fold (process_item env a) q (core (init_pool n q info))"
proof -
  let ?ini = "init_pool n q info"
  let ?mid = "run_workers env a (replicate (2 * length q + 1) 0) ?ini"
  let ?fin = "run_workers env a [0..<nat n] ?mid"
  from assms have pos: "0 < nat n" by simp
  then have r: "workers ?ini ! 0 = Receiving" "workers ?ini \<noteq> []" by auto
  from worker0_drains [OF r, of env a]
  have m: "core ?mid = fold (process_item env a) q (core ?ini)" "queue ?mid = []"
    "workers ?mid = (replicate (nat n) Receiving)[0 := Exited]"
    by simp_all
  have "\<forall>w \<in> set (workers ?mid). w = Receiving \<or> w = Exited"
    unfolding m(3) using set_update_subset_insert [of "replicate (nat n) Receiving" 0 Exited]
    by auto
  from workers_exit [OF m(2) this, of env a "[0..<nat n]"]
  have f: "core ?fin = core ?mid" "length (workers ?fin) = nat n"
    "\<forall>i < nat n. workers ?fin ! i = Exited"
    by (simp_all add: m(3))
  have "all_exited ?fin"
    unfolding all_exited_def list_all_length using f(2,3) by simp
  moreover have "run_workers env a (replicate (2 * length q + 1) 0 @ [0..<nat n]) ?ini = ?fin"
    by (simp add: run_workers_def)
  ultimately show ?thesis using f(1) m(1) by simp
qed

lemma complete_schedule_exists:
  "\<exists>sched. all_exited (run_workers env a sched (init_pool n q info))"
proof (cases "1 \<le> n")
  case True
  from sequential_run [OF this] show ?thesis by blast
next
  case False
  then have "all_exited (run_workers env a [] (init_pool n q info))"
    by (simp add: all_exited_def)
  then show ?thesis ..
qed

subsection \<open>Pixels of the canvas\<close>

lemma process_item_Bounds [simp]:
  "Bounds (dstImg (process_item env a f st)) = Bounds (dstImg st)"
  by (simp add: process_item_def Draw_Src_def split: prod.splits sum.splits)

lemma process_item_At:
  "At (dstImg (process_item env a f st)) px py =
     (case tile_px env a f px py of
        None \<Rightarrow> At (dstImg st) px py
      | Some c \<Rightarrow> if In px py (Bounds (dstImg st)) then c else At (dstImg st) px py)"
proof (cases "hevc2Image env a (hevcFile f)")
  case (Pair evs res)
  show ?thesis
  proof (cases res)
    case (Inl e)
    with Pair show ?thesis by (simp add: process_item_def tile_px_def)
  next
    case (Inr img)
    with Pair show ?thesis
      by (simp add: process_item_def tile_px_def Draw_Src_def Let_def)
  qed
qed

lemma fold_items_Bounds [simp]:
  "Bounds (dstImg (fold (process_item env a) ds st)) = Bounds (dstImg st)"
  by (induction ds arbitrary: st) simp_all

lemma map_filter_snoc:
  "List.map_filter g (xs @ [x]) = List.map_filter g xs @ (case g x of None \<Rightarrow> [] | Some c \<Rightarrow> [c])"
  by (simp add: map_filter_def split: option.splits)

lemma fold_items_At:
  "At (dstImg (fold (process_item env a) ds st)) px py =
     (if In px py (Bounds (dstImg st)) \<and> List.map_filter (\<lambda>f. tile_px env a f px py) ds \<noteq> []
      then last (List.map_filter (\<lambda>f. tile_px env a f px py) ds)
      else At (dstImg st) px py)"
proof (induction ds rule: rev_induct)
  case Nil
  show ?case by (simp add: map_filter_simps)
next
  case (snoc f ds)
  show ?case
  proof (cases "tile_px env a f px py")
    case None
    with snoc show ?thesis by (simp add: process_item_At map_filter_snoc)
  next
    case (Some c)
    with snoc show ?thesis by (simp add: process_item_At map_filter_snoc)
  qed
qed

lemma mset_map_filter:
  "mset xs = mset ys \<Longrightarrow> mset (List.map_filter g xs) = mset (List.map_filter g ys)"
  by (simp add: map_filter_def)

lemma short_mset_eq:
  assumes "length xs \<le> 1" and "mset xs = mset ys"
  shows "xs = ys"
proof (cases xs)
  case Nil
  with assms(2) show ?thesis by simp
next
  case (Cons x xs')
  with assms(1) have "xs = [x]" by simp
  with assms(2) show ?thesis by (metis mset_single_iff_right)
qed

lemma exclusive_map_filter:
  assumes "\<And>i j. i < length xs \<Longrightarrow> j < length xs \<Longrightarrow> g (xs ! i) \<noteq> None
             \<Longrightarrow> g (xs ! j) \<noteq> None \<Longrightarrow> i = j"
  shows "length (List.map_filter g xs) \<le> 1"
  using assms
proof (induction xs)
  case Nil
  show ?case by (simp add: map_filter_simps)
next
  case (Cons x xs)
  have tl: "i = j" if "i < length xs" "j < length xs" "g (xs ! i) \<noteq> None" "g (xs ! j) \<noteq> None"
    for i j
    using Cons.prems [of "Suc i" "Suc j"] that by simp
  show ?case
  proof (cases "g x")
    case None
    with Cons.IH [OF tl] show ?thesis by (simp add: map_filter_simps)
  next
    case (Some c)
    have "g y = None" if y: "y \<in> set xs" for y
    proof (rule ccontr)
      assume n: "g y \<noteq> None"
      from y obtain j where j: "j < length xs" "xs ! j = y"
        unfolding in_set_conv_nth by blast
      from Cons.prems [of 0 "Suc j"] j n Some show False by simp
    qed
    then have "filter (\<lambda>y. g y \<noteq> None) xs = []"
      by (simp add: filter_empty_conv)
    then have "List.map_filter g xs = []" unfolding map_filter_def by simp
    with Some show ?thesis by (simp add: map_filter_simps)
  qed
qed

lemma same_column:
  assumes "x1 * w \<le> px" "px < x1 * w + w" "x2 * w \<le> px" "px < x2 * w + w"
  shows "x1 = (x2 :: int)"
proof -
  from assms have w: "0 < w" by linarith
  have le: "a = b" if "a * w \<le> p" "p < a * w + w" "b * w \<le> p" "p < b * w + w" "a \<le> b"
    for a b p :: int
  proof (rule ccontr)
    assume "a \<noteq> b"
    with that(5) have "a + 1 \<le> b" by simp
    then have "(a + 1) * w \<le> b * w" using w by (intro mult_right_mono) simp_all
    moreover have "(a + 1) * w = a * w + w" by (simp add: algebra_simps)
    ultimately show False using that(2,3) by linarith
  qed
  show ?thesis
  proof (cases "x1 \<le> x2")
    case True
    from le [OF assms True] show ?thesis .
  next
    case False
    then have "x2 \<le> x1" by simp
    from le [OF assms(3,4,1,2) this] show ?thesis by simp
  qed
qed

subsection \<open>The queue and tiles of one size\<close>

lemma go_rem_nat: "c \<noteq> 0 \<Longrightarrow> go_rem (int m) c = Inr (int m mod \<bar>c\<bar>)"
  by (cases "m = 0") (simp_all add: go_rem_def)

lemma go_quo_nat: "c \<noteq> 0 \<Longrightarrow> go_quo (int m) c = Inr (sgn c * (int m div \<bar>c\<bar>))"
  by (cases "m = 0") (simp_all add: go_quo_def)

lemma fill_queue_zero: "fs \<noteq> [] \<Longrightarrow> fill_queue i fs 0 = Inl DivideByZero"
  by (cases fs) (simp_all add: go_rem_def)

lemma fill_queue_nonzero:
  "c \<noteq> 0 \<Longrightarrow> \<exists>q. fill_queue i fs c = Inr q \<and> length q = length fs
     \<and> (\<forall>k < length fs. q ! k
          = \<lparr>hevcFile = fs ! k, item_x = int (i + k) mod \<bar>c\<bar>,
             item_y = sgn c * (int (i + k) div \<bar>c\<bar>)\<rparr>)"
proof (induction fs arbitrary: i)
  case Nil
  show ?case by simp
next
  case (Cons f fs)
  from Cons.IH [OF Cons.prems, of "Suc i"] obtain q where
    q: "fill_queue (Suc i) fs c = Inr q" "length q = length fs"
      "\<forall>k < length fs. q ! k
          = \<lparr>hevcFile = fs ! k, item_x = int (Suc i + k) mod \<bar>c\<bar>,
             item_y = sgn c * (int (Suc i + k) div \<bar>c\<bar>)\<rparr>"
    by blast
  let ?it = "\<lparr>hevcFile = f, item_x = int i mod \<bar>c\<bar>, item_y = sgn c * (int i div \<bar>c\<bar>)\<rparr>"
  have 1: "fill_queue i (f # fs) c = Inr (?it # q)"
    using q(1) Cons.prems by (simp add: go_rem_nat go_quo_nat)
  have 2: "(?it # q) ! k = \<lparr>hevcFile = (f # fs) ! k, item_x = int (i + k) mod \<bar>c\<bar>,
             item_y = sgn c * (int (i + k) div \<bar>c\<bar>)\<rparr>" if "k < length (f # fs)" for k
  proof (cases k)
    case 0
    then show ?thesis by simp
  next
    case (Suc j)
    with that have "j < length fs" by simp
    with q(3) Suc show ?thesis by simp
  qed
  from 1 2 q(2) show ?case by simp
qed

lemma fill_queue_Inr:
  assumes "fill_queue 0 fs c = Inr q"
  shows "length q = length fs"
    and "fs \<noteq> [] \<Longrightarrow> c \<noteq> 0"
    and "k < length fs \<Longrightarrow> q ! k
          = \<lparr>hevcFile = fs ! k, item_x = int k mod \<bar>c\<bar>, item_y = sgn c * (int k div \<bar>c\<bar>)\<rparr>"
proof -
  show nz: "c \<noteq> 0" if "fs \<noteq> []"
    using fill_queue_zero [OF that, of 0] assms by auto
  show "length q = length fs"
  proof (cases "fs = []")
    case True
    with assms show ?thesis by simp
  next
    case False
    from fill_queue_nonzero [OF nz [OF False], of 0 fs] assms show ?thesis by auto
  qed
  show "q ! k = \<lparr>hevcFile = fs ! k, item_x = int k mod \<bar>c\<bar>, item_y = sgn c * (int k div \<bar>c\<bar>)\<rparr>"
    if "k < length fs"
  proof -
    from that have "fs \<noteq> []" by auto
    from fill_queue_nonzero [OF nz [OF this], of 0 fs] assms that show ?thesis by auto
  qed
qed

lemma fill_queue_files:
  assumes "fill_queue 0 fs c = Inr q"
  shows "map hevcFile q = fs"
proof (rule nth_equalityI)
  show "length (map hevcFile q) = length fs" using fill_queue_Inr(1) [OF assms] by simp
next
  fix k assume "k < length (map hevcFile q)"
  then have k: "k < length fs" using fill_queue_Inr(1) [OF assms] by simp
  with fill_queue_Inr(1) [OF assms] have "map hevcFile q ! k = hevcFile (q ! k)" by simp
  with fill_queue_Inr(3) [OF assms k] show "map hevcFile q ! k = fs ! k" by simp
qed

lemma coords_injective:
  assumes "c \<noteq> 0"
    and "int k mod \<bar>c\<bar> = int j mod \<bar>c\<bar>"
    and "sgn c * (int k div \<bar>c\<bar>) = sgn c * (int j div \<bar>c\<bar>)"
  shows "k = j"
proof -
  from assms(1) have "sgn c \<noteq> 0" by (simp add: sgn_0_0)
  with assms(3) have "int k div \<bar>c\<bar> = int j div \<bar>c\<bar>" by simp
  with assms(2) have "int k = int j"
    by (metis mult_div_mod_eq)
  then show ?thesis by simp
qed

lemma tile_px_uniform:
  assumes "uniform_tiles env a files tiles w h" and "hevcFile f \<in> set files"
  shows "tile_px env a f px py =
     (if item_x f * w \<le> px \<and> px < item_x f * w + w \<and> item_y f * h \<le> py \<and> py < item_y f * h + h
      then Some (At (tiles (hevcFile f)) (px - item_x f * w) (py - item_y f * h))
      else None)"
proof -
  from assms have d: "snd (hevc2Image env a (hevcFile f)) = Inr (tiles (hevcFile f))"
    and b: "Bounds (tiles (hevcFile f)) = \<lparr>MinPt = \<lparr>X = 0, Y = 0\<rparr>, MaxPt = \<lparr>X = w, Y = h\<rparr>\<rparr>"
    by (simp_all add: uniform_tiles_def)
  show ?thesis
    unfolding tile_px_def d by (auto simp: tile_rect_def In_def Let_def b)
qed

lemma uniform_exclusive:
  assumes q: "fill_queue 0 files c = Inr q" and u: "uniform_tiles env a files tiles w h"
    and i: "i < length q" and j: "j < length q"
    and ci: "tile_px env a (q ! i) px py \<noteq> None" and cj: "tile_px env a (q ! j) px py \<noteq> None"
  shows "i = j"
proof -
  note len = fill_queue_Inr(1) [OF q]
  from i len have ne: "files \<noteq> []" by auto
  note nz = fill_queue_Inr(2) [OF q ne]
  from i j len have fi: "i < length files" and fj: "j < length files" by simp_all
  note qi = fill_queue_Inr(3) [OF q fi] and qj = fill_queue_Inr(3) [OF q fj]
  have mi: "hevcFile (q ! i) \<in> set files" and mj: "hevcFile (q ! j) \<in> set files"
    using qi qj fi fj by simp_all
  from ci have A: "item_x (q ! i) * w \<le> px" "px < item_x (q ! i) * w + w"
    "item_y (q ! i) * h \<le> py" "py < item_y (q ! i) * h + h"
    unfolding tile_px_uniform [OF u mi] by (simp_all split: if_splits)
  from cj have B: "item_x (q ! j) * w \<le> px" "px < item_x (q ! j) * w + w"
    "item_y (q ! j) * h \<le> py" "py < item_y (q ! j) * h + h"
    unfolding tile_px_uniform [OF u mj] by (simp_all split: if_splits)
  have "item_x (q ! i) = item_x (q ! j)" by (rule same_column [OF A(1,2) B(1,2)])
  moreover have "item_y (q ! i) = item_y (q ! j)" by (rule same_column [OF A(3,4) B(3,4)])
  ultimately show ?thesis
    using coords_injective [OF nz, of i j] by (simp add: qi qj)
qed

lemma final_pixel:
  assumes q: "fill_queue 0 files c = Inr q" and u: "uniform_tiles env a files tiles w h"
    and n: "1 \<le> n" and ex: "all_exited (run_workers env a sched (init_pool n q info))"
  shows "Bounds (dstImg (run_workers env a sched (init_pool n q info)))
           = Rect 0 0 (Width info) (Height info)"
    and "At (dstImg (run_workers env a sched (init_pool n q info))) px py
           = (if In px py (Rect 0 0 (Width info) (Height info))
                 \<and> List.map_filter (\<lambda>f. tile_px env a f px py) q \<noteq> []
              then last (List.map_filter (\<lambda>f. tile_px env a f px py) q)
              else RGBA 0 0 0 0)"
proof -
  let ?st = "run_workers env a sched (init_pool n q info)"
  let ?g = "\<lambda>f. tile_px env a f px py"
  from pool_finished [OF ex n] obtain ds where ds: "mset ds = mset q"
    "core ?st = fold (process_item env a) ds (core (init_pool n q info))"
    by blast
  have img: "dstImg ?st = dstImg (fold (process_item env a) ds (core (init_pool n q info)))"
    using ds(2) by (metis core_fields(1))
  show "Bounds (dstImg ?st) = Rect 0 0 (Width info) (Height info)"
    unfolding img by (simp add: NewRGBA_def)
  have "length (List.map_filter ?g q) \<le> 1"
    by (rule exclusive_map_filter) (rule uniform_exclusive [OF q u])
  moreover have "mset (List.map_filter ?g q) = mset (List.map_filter ?g ds)"
    using ds(1) by (intro mset_map_filter) simp
  ultimately have eq: "List.map_filter ?g ds = List.map_filter ?g q"
    using short_mset_eq by metis
  show "At (dstImg ?st) px py
           = (if In px py (Rect 0 0 (Width info) (Height info)) \<and> List.map_filter ?g q \<noteq> []
              then last (List.map_filter ?g q) else RGBA 0 0 0 0)"
    unfolding img fold_items_At eq by (simp add: NewRGBA_def)
qed

lemma covering_item:
  assumes q: "fill_queue 0 files c = Inr q" and u: "uniform_tiles env a files tiles w h"
    and i: "i < length q" and ci: "tile_px env a (q ! i) px py = Some col"
  shows "List.map_filter (\<lambda>f. tile_px env a f px py) q = [col]"
proof -
  let ?g = "\<lambda>f. tile_px env a f px py"
  have "length (List.map_filter ?g q) \<le> 1"
    by (rule exclusive_map_filter) (rule uniform_exclusive [OF q u])
  moreover from i ci have "col \<in> set (List.map_filter ?g q)"
    unfolding map_filter_def by (force simp: in_set_conv_nth)
  ultimately show ?thesis
    by (cases "List.map_filter ?g q") auto
qed

subsection \<open>The example environment\<close>

lemma example_env_simps [simp]:
  "run_info (example_env out files decode) = (\<lambda>path src. Inr out)"
  "run_heif2hevc (example_env out files decode) = (\<lambda>path src tmp. None)"
  "Getpid (example_env out files decode) = ''7''"
  "Glob (example_env out files decode) = (\<lambda>pattern. files)"
  "run_ffmpeg (example_env out files decode) = (\<lambda>path file. Inr file)"
  "png_Decode (example_env out files decode) = decode"
  "Rotate (example_env out files decode) = (\<lambda>img angle. img)"
  "os_Create (example_env out files decode) = (\<lambda>file. True)"
  "png_Encode (example_env out files decode) = (\<lambda>level img. True)"
  "jpeg_Encode (example_env out files decode) = (\<lambda>quality img. True)"
  by (simp_all add: example_env_def)

lemma example_argv_simps [simp]:
  "help_flag (example_argv n dst) = False" "version (example_argv n dst) = False"
  "ffmpegPath (example_argv n dst) = ''ffmpeg''"
  "heif2hevcPath (example_argv n dst) = ''heif2hevc''"
  "pngCompression (example_argv n dst) = 0" "jpegQuality (example_argv n dst) = 90"
  "threads (example_argv n dst) = n" "args (example_argv n dst) = [''in.heic'', dst]"
  by (simp_all add: example_argv_def)

lemma hevc2Image_example:
  "hevc2Image (example_env out files decode) a file =
     (case decode file of
        None \<Rightarrow> ([ffmpeg_cmd a file, Stderr ''ffmpeg fail:''], Inl (Wrap ''png decode fail''))
      | Some img \<Rightarrow> ([ffmpeg_cmd a file], Inr img))"
  by (simp add: hevc2Image_def)

lemma red_blue_fill: "fill_queue 0 [''t0'', ''t1''] 2 = Inr red_blue_queue"
  by (simp add: go_rem_def go_quo_def red_blue_queue_def)

lemma red_blue_uniform:
  "uniform_tiles (example_env out files (\<lambda>b. Some (red_blue b))) a [''t0'', ''t1''] red_blue 2 2"
  by (simp add: uniform_tiles_def hevc2Image_example red_blue_def solid_def)

lemma interleaved_exits:
  "all_exited (run_workers env a [0, 1, 1, 0, 0, 1] (init_pool 2 red_blue_queue info))"
  by (simp add: init_pool_def worker_step_def all_exited_def red_blue_queue_def
      eval_nat_numeral)

lemma sequential2_exits:
  "all_exited (run_workers env a [0, 0, 0, 0, 0, 1] (init_pool 2 red_blue_queue info))"
  by (simp add: init_pool_def worker_step_def all_exited_def red_blue_queue_def
      eval_nat_numeral)

lemma tile_px_example:
  "tile_px (example_env out files (\<lambda>b. Some (tiles b))) a f px py =
     (let img = tiles (hevcFile f); r = tile_rect f img;
          sx = px - X (MinPt r); sy = py - Y (MinPt r)
      in if In px py r \<and> In sx sy (Bounds img) then Some (At img sx sy) else None)"
  by (simp add: tile_px_def hevc2Image_example Let_def)

lemma wide_interleaved_pixel:
  "At (dstImg (run_workers (example_env out files (\<lambda>b. Some (wide_red_blue b))) a
         [0, 1, 1, 0, 0, 1] (init_pool 2 red_blue_queue grid_2x1))) 2 0 = RGBA 255 0 0 255"
  by (simp add: init_pool_def worker_step_def red_blue_queue_def eval_nat_numeral
      process_item_At tile_px_example wide_red_blue_def solid_def tile_rect_def In_def
      Let_def NewRGBA_def Rect_def grid_2x1_def)

lemma wide_sequential_pixel:
  "At (dstImg (run_workers (example_env out files (\<lambda>b. Some (wide_red_blue b))) a
         [0, 0, 0, 0, 0, 1] (init_pool 2 red_blue_queue grid_2x1))) 2 0 = RGBA 0 0 255 255"
  by (simp add: init_pool_def worker_step_def red_blue_queue_def eval_nat_numeral
      process_item_At tile_px_example wide_red_blue_def solid_def tile_rect_def In_def
      Let_def NewRGBA_def Rect_def grid_2x1_def)

subsection \<open>The stages of main\<close>

lemma assemble_Inr:
  assumes "assemble env a0 sched = Some (Inr s)"
  shows "\<exists>out t2 q.
       run_info env (heif2hevcPath a0) (args a0 ! 0) = Inr out
     \<and> heif2hevc env (a0\<lparr>pngCompression := - pngCompression a0\<rparr>) (args a0 ! 0) (args a0 ! 1)
         = (t2, as_files s, None)
     \<and> fill_queue 0 (as_files s) (Cols (single_tile (read_loop zero_HeifInfo out))) = Inr q
     \<and> as_flags s = a0\<lparr>pngCompression := - pngCompression a0\<rparr>
     \<and> as_dst s = args a0 ! 1
     \<and> as_info s = single_tile (read_loop zero_HeifInfo out)
     \<and> as_trace s = Exec (heif2hevcPath a0) [''-info'', args a0 ! 0] # t2
     \<and> as_pool s = run_workers env (a0\<lparr>pngCompression := - pngCompression a0\<rparr>) sched
         (init_pool (threads a0) q (single_tile (read_loop zero_HeifInfo out)))
     \<and> all_exited (as_pool s)
     \<and> \<not> NewRGBA_panics (Rect 0 0 (Width (as_info s)) (Height (as_info s)))"
proof -
  let ?a = "a0\<lparr>pngCompression := - pngCompression a0\<rparr>"
  from assms have fl: "\<not> version a0" "\<not> help_flag a0"
    "\<not> ((pngCompression a0 < 0 \<or> pngCompression a0 > 3)
        \<or> (jpegQuality a0 < 0 \<or> jpegQuality a0 > 100))" "\<not> length (args a0) < 2"
    by (auto simp: assemble_def split: if_splits)
  obtain t1 r1 where h1: "heifGetInfo env ?a (args a0 ! 0) = (t1, r1)" by force
  obtain t2 files err where h2: "heif2hevc env ?a (args a0 ! 0) (args a0 ! 1) = (t2, files, err)"
    by (metis prod_cases3)
  from assms fl h1 obtain info0 where r1: "r1 = Inr info0"
    by (cases r1) (auto simp: assemble_def Let_def)
  from h1 r1 obtain out where out: "run_info env (heif2hevcPath a0) (args a0 ! 0) = Inr out"
    "info0 = read_loop zero_HeifInfo out" "t1 = [Exec (heif2hevcPath a0) [''-info'', args a0 ! 0]]"
    by (auto simp: heifGetInfo_def split: sum.splits)
  from assms fl h1 r1 h2 have err: "err = None"
    by (cases err) (auto simp: assemble_def Let_def)
  from assms fl h1 r1 h2 err obtain q where
    q: "fill_queue 0 files (Cols (single_tile info0)) = Inr q"
    by (cases "fill_queue 0 files (Cols (single_tile info0))") (auto simp: assemble_def Let_def)
  let ?st = "run_workers env ?a sched (init_pool (threads a0) q (single_tile info0))"
  from assms fl h1 r1 h2 err q
  have np: "\<not> NewRGBA_panics (Rect 0 0 (Width (single_tile info0)) (Height (single_tile info0)))"
    by (auto simp: assemble_def Let_def split: if_splits)
  from assms fl h1 r1 h2 err q np have ex: "all_exited ?st"
    and s: "s = \<lparr>as_flags = ?a, as_dst = args a0 ! 1, as_info = single_tile info0,
        as_files = files, as_trace = t1 @ t2, as_pool = ?st\<rparr>"
    by (auto simp: assemble_def Let_def split: if_splits)
  show ?thesis
    using out h2 err q ex np unfolding s by (intro exI [of _ out] exI [of _ t2] exI [of _ q]) simp
qed

lemma assemble_InrI:
  assumes "\<not> version a0" "\<not> help_flag a0" "0 \<le> pngCompression a0" "pngCompression a0 \<le> 3"
    "0 \<le> jpegQuality a0" "jpegQuality a0 \<le> 100" "2 \<le> length (args a0)"
    and "run_info env (heif2hevcPath a0) (args a0 ! 0) = Inr out"
    and "heif2hevc env (a0\<lparr>pngCompression := - pngCompression a0\<rparr>) (args a0 ! 0) (args a0 ! 1)
           = (t2, files, None)"
    and "fill_queue 0 files (Cols (single_tile (read_loop zero_HeifInfo out))) = Inr q"
    and "\<not> NewRGBA_panics (Rect 0 0 (Width (single_tile (read_loop zero_HeifInfo out)))
                                     (Height (single_tile (read_loop zero_HeifInfo out))))"
    and "all_exited (run_workers env (a0\<lparr>pngCompression := - pngCompression a0\<rparr>) sched
           (init_pool (threads a0) q (single_tile (read_loop zero_HeifInfo out))))"
  shows "assemble env a0 sched = Some (Inr
           \<lparr>as_flags = a0\<lparr>pngCompression := - pngCompression a0\<rparr>, as_dst = args a0 ! 1,
            as_info = single_tile (read_loop zero_HeifInfo out), as_files = files,
            as_trace = Exec (heif2hevcPath a0) [''-info'', args a0 ! 0] # t2,
            as_pool = run_workers env (a0\<lparr>pngCompression := - pngCompression a0\<rparr>) sched
              (init_pool (threads a0) q (single_tile (read_loop zero_HeifInfo out)))\<rparr>)"
  using assms by (simp add: assemble_def heifGetInfo_def Let_def)

lemma NewRGBA_small:
  "\<bar>w\<bar> < 2 ^ 30 \<Longrightarrow> \<bar>h\<bar> < 2 ^ 30 \<Longrightarrow> \<not> NewRGBA_panics (Rect 0 0 w h)"
proof -
  assume w: "\<bar>w\<bar> < 2 ^ 30" and h: "\<bar>h\<bar> < 2 ^ 30"
  have dx: "X (MaxPt (Rect 0 0 w h)) - X (MinPt (Rect 0 0 w h)) = \<bar>w\<bar>"
    by (simp add: Rect_def)
  have dy: "Y (MaxPt (Rect 0 0 w h)) - Y (MinPt (Rect 0 0 w h)) = \<bar>h\<bar>"
    by (simp add: Rect_def)
  have "\<bar>w\<bar> * \<bar>h\<bar> \<le> 2 ^ 30 * 2 ^ 30"
    using w h by (intro mult_mono) simp_all
  then have "4 * \<bar>w\<bar> * \<bar>h\<bar> < (2 :: int) ^ 63" by (simp add: mult.commute)
  then show ?thesis
    unfolding NewRGBA_panics_def dx dy by simp
qed

lemma NewRGBA_huge: "NewRGBA_panics (Rect 0 0 2147483647 2147483647)"
  by (simp add: NewRGBA_panics_def Rect_def)

lemma assemble_huge:
  assumes "\<not> version a0" "\<not> help_flag a0" "0 \<le> pngCompression a0" "pngCompression a0 \<le> 3"
    "0 \<le> jpegQuality a0" "jpegQuality a0 \<le> 100" "2 \<le> length (args a0)"
    and "run_info env (heif2hevcPath a0) (args a0 ! 0) = Inr out"
    and "heif2hevc env (a0\<lparr>pngCompression := - pngCompression a0\<rparr>) (args a0 ! 0) (args a0 ! 1)
           = (t2, files, None)"
    and "fill_queue 0 files (Cols (single_tile (read_loop zero_HeifInfo out))) = Inr q"
    and "NewRGBA_panics (Rect 0 0 (Width (single_tile (read_loop zero_HeifInfo out)))
                                 (Height (single_tile (read_loop zero_HeifInfo out))))"
  shows "assemble env a0 sched = Some (Inl
           \<lparr>outcome = Panicked HugeImage,
            trace = Exec (heif2hevcPath a0) [''-info'', args a0 ! 0] # t2 @ map Remove files\<rparr>)"
  using assms by (simp add: assemble_def heifGetInfo_def Let_def)

lemma assemble_panic:
  assumes "\<not> version a0" "\<not> help_flag a0" "0 \<le> pngCompression a0" "pngCompression a0 \<le> 3"
    "0 \<le> jpegQuality a0" "jpegQuality a0 \<le> 100" "2 \<le> length (args a0)"
    and "run_info env (heif2hevcPath a0) (args a0 ! 0) = Inr out"
    and "heif2hevc env (a0\<lparr>pngCompression := - pngCompression a0\<rparr>) (args a0 ! 0) (args a0 ! 1)
           = (t2, files, None)"
    and "fill_queue 0 files (Cols (single_tile (read_loop zero_HeifInfo out))) = Inl e"
  shows "assemble env a0 sched = Some (Inl
           \<lparr>outcome = Panicked e,
            trace = Exec (heif2hevcPath a0) [''-info'', args a0 ! 0] # t2 @ map Remove files\<rparr>)"
  using assms by (simp add: assemble_def heifGetInfo_def Let_def)

lemma heif2hevc_ok:
  "heif2hevc env a src dst = (t2, files, None) \<Longrightarrow>
     t2 = [Exec (heif2hevcPath a) [src, dst @ ''.'' @ Getpid env @ ''.tmp'']]"
  by (auto simp: heif2hevc_def Let_def split: option.splits)

lemma encoded_log:
  "List.map_filter encoded (log (fold (process_item env a) ds st))
     = List.map_filter encoded (log st)"
  by (induction ds arbitrary: st)
     (simp_all add: process_item_log hevc2Image_events map_filter_def encoded_def ffmpeg_cmd_def)

lemma encoded_Remove: "List.map_filter encoded (map Remove fs) = []"
  by (induction fs) (simp_all add: map_filter_simps encoded_def)

lemma map_filter_append:
  "List.map_filter g (xs @ ys) = List.map_filter g xs @ List.map_filter g ys"
  by (simp add: map_filter_def)

lemma pool_log:
  "log (run_workers env a sched (init_pool n q info))
     = log (fold (process_item env a) ds (core (init_pool n q info)))"
  if "core (run_workers env a sched (init_pool n q info))
     = fold (process_item env a) ds (core (init_pool n q info))"
  using that by (metis core_fields(2))

lemma encoded_pool:
  "List.map_filter encoded (log (run_workers env a sched (init_pool n q info))) = []"
proof -
  obtain ds where "core (run_workers env a sched (init_pool n q info))
      = fold (process_item env a) ds (core (init_pool n q info))"
    using run_workers_items by blast
  from pool_log [OF this] show ?thesis
    by (simp add: encoded_log map_filter_simps)
qed

subsection \<open>The extension of the destination\<close>

lemma of_char_lower_byte:
  "(of_char (lower_byte c) :: int)
     = (if 65 \<le> (of_char c :: int) \<and> (of_char c :: int) \<le> 90 then of_char c + 32 else of_char c)"
  by (simp add: lower_byte_def of_char_of)

lemma lower_byte_fixed:
  assumes "(of_char d :: int) < 65"
  shows "lower_byte c = d \<longleftrightarrow> c = d"
proof
  assume l: "lower_byte c = d"
  then have "(of_char (lower_byte c) :: int) = of_char d" by simp
  with assms have "(of_char c :: int) = of_char d"
    unfolding of_char_lower_byte by (auto split: if_splits)
  then show "c = d" by simp
next
  assume "c = d"
  with assms show "lower_byte c = d" by (auto simp: lower_byte_def)
qed

lemma lower_byte_slash [simp]: "lower_byte c = CHR ''/'' \<longleftrightarrow> c = CHR ''/''"
  by (rule lower_byte_fixed) simp

lemma lower_byte_dot [simp]: "lower_byte c = CHR ''.'' \<longleftrightarrow> c = CHR ''.''"
  by (rule lower_byte_fixed) simp

lemma Ext_scan_lower:
  "Ext_scan (map lower_byte r) (map lower_byte suf) = map lower_byte (Ext_scan r suf)"
proof (induction r arbitrary: suf)
  case Nil
  show ?case by simp
next
  case (Cons c r)
  from Cons [of "c # suf"] show ?case by simp
qed

lemma Ext_ToLower: "Ext (ToLower path) = ToLower (Ext path)"
  using Ext_scan_lower [of "rev path" "[]"] by (simp add: Ext_def ToLower_def rev_map)

lemma main_finish: "assemble env a sched = Some (Inr s) \<Longrightarrow> main env a sched = Some (finish env s)"
  by (simp add: main_def)

subsection \<open>Evaluating the examples\<close>

lemma grid_text_info: "read_loop zero_HeifInfo grid_text = grid_2x1"
  by code_simp

lemma single_text_info:
  "read_loop zero_HeifInfo single_text
     = \<lparr>Width = 2, Height = 2, Rotation = 0, Tiles = 1, Rows = 6, Cols = 0\<rparr>"
  by code_simp

lemma no_cols_text_info:
  "read_loop zero_HeifInfo no_cols_text
     = \<lparr>Width = 4, Height = 2, Rotation = 0, Tiles = 2, Rows = 0, Cols = 0\<rparr>"
  by code_simp

lemma neg_cols_text_info:
  "read_loop zero_HeifInfo neg_cols_text
     = \<lparr>Width = 4, Height = 2, Rotation = 0, Tiles = 2, Rows = - 1, Cols = - 2\<rparr>"
  by code_simp

lemma example_argv_neg:
  "(example_argv n dst)\<lparr>pngCompression := - pngCompression (example_argv n dst)\<rparr>
     = example_argv n dst"
  by (simp add: example_argv_def)

lemma heif2hevc_example:
  "heif2hevc (example_env out files decode) (example_argv n dst) ''in.heic'' dst
     = ([Exec ''heif2hevc'' [''in.heic'', dst @ ''.7.tmp'']], files, None)"
  by (simp add: heif2hevc_def)

lemma example_assemble:
  assumes "fill_queue 0 files (Cols (single_tile (read_loop zero_HeifInfo out))) = Inr q"
    and "\<not> NewRGBA_panics (Rect 0 0 (Width (single_tile (read_loop zero_HeifInfo out)))
                                     (Height (single_tile (read_loop zero_HeifInfo out))))"
    and "all_exited (run_workers (example_env out files decode) (example_argv n dst) sched
           (init_pool n q (single_tile (read_loop zero_HeifInfo out))))"
  shows "assemble (example_env out files decode) (example_argv n dst) sched
       = Some (Inr (example_assembly out files decode n dst sched q))"
proof -
  let ?env = "example_env out files decode" and ?a = "example_argv n dst"
  have 1: "run_info ?env (heif2hevcPath ?a) (args ?a ! 0) = Inr out" by simp
  have 2: "heif2hevc ?env (?a\<lparr>pngCompression := - pngCompression ?a\<rparr>) (args ?a ! 0) (args ?a ! 1)
      = ([Exec ''heif2hevc'' [''in.heic'', dst @ ''.7.tmp'']], files, None)"
    unfolding example_argv_neg using heif2hevc_example [of out files decode n dst] by simp
  have 3: "all_exited (run_workers ?env (?a\<lparr>pngCompression := - pngCompression ?a\<rparr>) sched
           (init_pool (threads ?a) q (single_tile (read_loop zero_HeifInfo out))))"
    unfolding example_argv_neg using assms(3) by simp
  have "assemble ?env ?a sched = Some (Inr
           \<lparr>as_flags = ?a\<lparr>pngCompression := - pngCompression ?a\<rparr>, as_dst = args ?a ! 1,
            as_info = single_tile (read_loop zero_HeifInfo out), as_files = files,
            as_trace = Exec (heif2hevcPath ?a) [''-info'', args ?a ! 0]
               # [Exec ''heif2hevc'' [''in.heic'', dst @ ''.7.tmp'']],
            as_pool = run_workers ?env (?a\<lparr>pngCompression := - pngCompression ?a\<rparr>) sched
              (init_pool (threads ?a) q (single_tile (read_loop zero_HeifInfo out)))\<rparr>)"
    by (rule assemble_InrI [OF _ _ _ _ _ _ _ 1 2 assms(1) assms(2) 3]) simp_all
  then show ?thesis
    unfolding example_argv_neg by (simp add: example_assembly_def)
qed

lemma sequential_exits:
  "1 \<le> n \<Longrightarrow> k = length q \<Longrightarrow>
     all_exited (run_workers env a (sequential n k) (init_pool n q info))"
  using sequential_run [of n env a q info] by (simp add: sequential_def)

lemma sequential_core:
  "1 \<le> n \<Longrightarrow> k = length q \<Longrightarrow>
     core (run_workers env a (sequential n k) (init_pool n q info))
       = fold (process_item env a) q (core (init_pool n q info))"
  using sequential_run [of n env a q info] by (simp add: sequential_def)

lemma sequential_fields:
  assumes "1 \<le> n" and "k = length q"
  shows "log (run_workers env a (sequential n k) (init_pool n q info))
           = log (fold (process_item env a) q (core (init_pool n q info)))"
    and "dstImg (run_workers env a (sequential n k) (init_pool n q info))
           = dstImg (fold (process_item env a) q (core (init_pool n q info)))"
    and "processError (run_workers env a (sequential n k) (init_pool n q info))
           = processError (fold (process_item env a) q (core (init_pool n q info)))"
  using sequential_core [OF assms, of env a info]
  by (metis core_fields(2), metis core_fields(1), metis core_fields(3))

lemma example_assembly_simps [simp]:
  "as_flags (example_assembly out files decode n dst sched q) = example_argv n dst"
  "as_dst (example_assembly out files decode n dst sched q) = dst"
  "as_info (example_assembly out files decode n dst sched q)
     = single_tile (read_loop zero_HeifInfo out)"
  "as_files (example_assembly out files decode n dst sched q) = files"
  "as_trace (example_assembly out files decode n dst sched q)
     = [Exec ''heif2hevc'' [''-info'', ''in.heic''],
        Exec ''heif2hevc'' [''in.heic'', dst @ ''.7.tmp'']]"
  "as_pool (example_assembly out files decode n dst sched q)
     = run_workers (example_env out files decode) (example_argv n dst) sched
         (init_pool n q (single_tile (read_loop zero_HeifInfo out)))"
  by (simp_all add: example_assembly_def)

lemma grid_single_tile: "single_tile grid_2x1 = grid_2x1"
  by (simp add: single_tile_def grid_2x1_def)

lemma single_text_tile: "single_tile (read_loop zero_HeifInfo single_text)
    = \<lparr>Width = 2, Height = 2, Rotation = 0, Tiles = 1, Rows = 1, Cols = 1\<rparr>"
  by (simp add: single_text_info single_tile_def)

lemma single_small:
  "\<not> NewRGBA_panics (Rect 0 0 (Width (single_tile (read_loop zero_HeifInfo single_text)))
                               (Height (single_tile (read_loop zero_HeifInfo single_text))))"
  unfolding single_text_tile by (rule NewRGBA_small) simp_all

lemma grid_small:
  "\<not> NewRGBA_panics (Rect 0 0 (Width (single_tile (read_loop zero_HeifInfo grid_text)))
                               (Height (single_tile (read_loop zero_HeifInfo grid_text))))"
  unfolding grid_text_info grid_single_tile by (rule NewRGBA_small) (simp_all add: grid_2x1_def)

lemma single_fill: "fill_queue 0 [''t0''] 1 = Inr single_queue"
  by (simp add: go_rem_def go_quo_def single_queue_def)

lemma png_name: "dst_format ''out.png'' = PNG"
  by code_simp

lemma bmp_name: "dst_format ''out.bmp'' = Unsupported"
  by code_simp

lemma rotate_step_example [simp]: "rotate_step (example_env out files decode) info img = img"
  by (simp add: rotate_step_def)

lemma write_dst_example:
  "write_dst (example_env out files decode) (example_argv n dst') dst img =
     Create dst #
       (case dst_format dst of
          PNG \<Rightarrow> [EncodePNG dst 0 img]
        | JPEG \<Rightarrow> [EncodeJPEG dst 90 img]
        | Unsupported \<Rightarrow> [Stderr ''Unsupported dst file extension''])
       @ [Close dst]"
  by (simp add: write_dst_def split: format.splits)

lemma finish_example:
  "finish (example_env out files decode) (example_assembly out files decode n dst sched q) =
     \<lparr>outcome = Returned,
      trace = [Exec ''heif2hevc'' [''-info'', ''in.heic''],
               Exec ''heif2hevc'' [''in.heic'', dst @ ''.7.tmp'']]
        @ log (run_workers (example_env out files decode) (example_argv n dst) sched
                 (init_pool n q (single_tile (read_loop zero_HeifInfo out))))
        @ (Create dst #
            (case dst_format dst of
               PNG \<Rightarrow> [EncodePNG dst 0
                  (dstImg (run_workers (example_env out files decode) (example_argv n dst) sched
                     (init_pool n q (single_tile (read_loop zero_HeifInfo out)))))]
             | JPEG \<Rightarrow> [EncodeJPEG dst 90
                  (dstImg (run_workers (example_env out files decode) (example_argv n dst) sched
                     (init_pool n q (single_tile (read_loop zero_HeifInfo out)))))]
             | Unsupported \<Rightarrow> [Stderr ''Unsupported dst file extension''])
            @ [Close dst])
        @ map Remove files\<rparr>"
  unfolding finish_def example_assembly_simps rotate_step_example write_dst_example ..

lemma red_blue_log:
  "log (run_workers (example_env out files (\<lambda>b. Some (tiles b))) a (sequential 1 2)
         (init_pool 1 red_blue_queue info))
     = [ffmpeg_cmd a ''t0'', ffmpeg_cmd a ''t1'']"
proof -
  have k: "2 = length red_blue_queue" by (simp add: red_blue_queue_def)
  show ?thesis
    unfolding sequential_fields(1) [OF order_refl k]
    by (simp add: red_blue_queue_def process_item_log hevc2Image_example)
qed

lemma grid_fill: "fill_queue 0 [''t0'', ''t1''] (Cols (single_tile (read_loop zero_HeifInfo grid_text)))
    = Inr red_blue_queue"
proof -
  have "Cols (single_tile (read_loop zero_HeifInfo grid_text)) = 2"
    by (simp add: grid_text_info grid_single_tile) (simp add: grid_2x1_def)
  then show ?thesis by (simp only: red_blue_fill)
qed

lemma grid_assemble:
  "assemble (example_env grid_text [''t0'', ''t1''] decode) (example_argv 1 dst) (sequential 1 2)
     = Some (Inr (example_assembly grid_text [''t0'', ''t1''] decode 1 dst (sequential 1 2)
         red_blue_queue))"
proof (rule example_assemble [OF grid_fill grid_small])
  have k: "2 = length red_blue_queue" by (simp add: red_blue_queue_def)
  show "all_exited (run_workers (example_env grid_text [''t0'', ''t1''] decode)
      (example_argv 1 dst) (sequential 1 2)
      (init_pool 1 red_blue_queue (single_tile (read_loop zero_HeifInfo grid_text))))"
    by (rule sequential_exits [OF order_refl k])
qed

lemma fail_first_log:
  "log (run_workers (example_env out files fail_first) a (sequential 1 2)
         (init_pool 1 red_blue_queue info))
     = [ffmpeg_cmd a ''t0'', Stderr ''ffmpeg fail:'', ffmpeg_cmd a ''t1'']"
proof -
  have k: "2 = length red_blue_queue" by (simp add: red_blue_queue_def)
  show ?thesis
    unfolding sequential_fields(1) [OF order_refl k]
    by (simp add: red_blue_queue_def process_item_log hevc2Image_example fail_first_def)
qed

subsection \<open>Every run of main can complete\<close>

lemma main_returns: "\<exists>sched. main env a0 sched \<noteq> None"
proof -
  let ?a = "a0\<lparr>pngCompression := - pngCompression a0\<rparr>"
  obtain t1 r1 where h1: "heifGetInfo env ?a (args a0 ! 0) = (t1, r1)" by force
  obtain t2 files err where h2: "heif2hevc env ?a (args a0 ! 0) (args a0 ! 1) = (t2, files, err)"
    by (metis prod_cases3)
  have early: "\<exists>sched. main env a0 sched \<noteq> None" if "assemble env a0 [] \<noteq> None"
    using that by (intro exI [of _ "[]"]) (auto simp: main_def split: option.splits sum.splits)
  show ?thesis
  proof (cases "assemble env a0 [] = None")
    case False
    then show ?thesis by (rule early)
  next
    case True
    then have fl: "\<not> version a0" "\<not> help_flag a0"
      "\<not> ((pngCompression a0 < 0 \<or> pngCompression a0 > 3)
          \<or> (jpegQuality a0 < 0 \<or> jpegQuality a0 > 100))" "\<not> length (args a0) < 2"
      by (auto simp: assemble_def split: if_splits)
    from True fl h1 obtain info0 where r1: "r1 = Inr info0"
      by (cases r1) (auto simp: assemble_def Let_def)
    from True fl h1 r1 h2 have err: "err = None"
      by (cases err) (auto simp: assemble_def Let_def)
    from True fl h1 r1 h2 err obtain q where
      q: "fill_queue 0 files (Cols (single_tile info0)) = Inr q"
      by (cases "fill_queue 0 files (Cols (single_tile info0))") (auto simp: assemble_def Let_def)
    from True fl h1 r1 h2 err q
    have np: "\<not> NewRGBA_panics
        (Rect 0 0 (Width (single_tile info0)) (Height (single_tile info0)))"
      by (auto simp: assemble_def Let_def split: if_splits)
    obtain sched where
      "all_exited (run_workers env ?a sched (init_pool (threads a0) q (single_tile info0)))"
      using complete_schedule_exists by blast
    with fl h1 r1 h2 err q np have "assemble env a0 sched \<noteq> None"
      by (simp add: assemble_def Let_def)
    then have "main env a0 sched \<noteq> None"
      by (auto simp: main_def split: option.splits sum.splits)
    then show ?thesis ..
  qed
qed

section \<open>The claims\<close>

text \<open>
  Claim C1: when the decode of a tile fails, the composite operation reports that error
  once all workers have finished, and does not go on to produce output as if the run
  had succeeded. The program does not do so. In the run below the only tile fails to
  decode: the worker stores the error in \<open>processError\<close>, \<^verbatim>\<open>main\<close> never reads
  it after \<^verbatim>\<open>wg.Wait\<close>, creates the destination, encodes the untouched canvas
  and returns normally.
\<close>

theorem decode_failure_ignored:
  "main (example_env single_text [''t0''] (\<lambda>b. None)) (example_argv 1 ''out.png'') (sequential 1 1)
     = Some \<lparr>outcome = Returned,
             trace = [Exec ''heif2hevc'' [''-info'', ''in.heic''],
                      Exec ''heif2hevc'' [''in.heic'', ''out.png.7.tmp''],
                      ffmpeg_cmd (example_argv 1 ''out.png'') ''t0'',
                      Stderr ''ffmpeg fail:'',
                      Create ''out.png'',
                      EncodePNG ''out.png'' 0 (NewRGBA (Rect 0 0 2 2)),
                      Close ''out.png'',
                      Remove ''t0'']\<rparr>
   \<and> processError (run_workers (example_env single_text [''t0''] (\<lambda>b. None))
         (example_argv 1 ''out.png'') (sequential 1 1)
         (init_pool 1 single_queue (single_tile (read_loop zero_HeifInfo single_text))))
     = Some (Wrap ''png decode fail'')"
proof -
  let ?env = "example_env single_text [''t0''] (\<lambda>b. None)"
  let ?a = "example_argv 1 ''out.png''"
  let ?info = "single_tile (read_loop zero_HeifInfo single_text)"
  let ?st = "run_workers ?env ?a (sequential 1 1) (init_pool 1 single_queue ?info)"
  have "Cols ?info = 1" by (simp add: single_text_tile)
  then have q: "fill_queue 0 [''t0''] (Cols ?info) = Inr single_queue"
    by (simp only: single_fill)
  have k: "1 = length single_queue" by (simp add: single_queue_def)
  have ex: "all_exited ?st" by (rule sequential_exits [OF order_refl k])
  note f = sequential_fields [OF order_refl k, of ?env ?a ?info]
  have lg: "log ?st = [ffmpeg_cmd ?a ''t0'', Stderr ''ffmpeg fail:'']"
    unfolding f(1) by (simp add: single_queue_def process_item_log hevc2Image_example)
  have img: "dstImg ?st = NewRGBA (Rect 0 0 2 2)"
    unfolding f(2)
    by (simp add: single_queue_def process_item_def hevc2Image_example single_text_tile)
  have pe: "processError ?st = Some (Wrap ''png decode fail'')"
    unfolding f(3) by (simp add: single_queue_def process_item_def hevc2Image_example)
  have "main ?env ?a (sequential 1 1)
      = Some (finish ?env (example_assembly single_text [''t0''] (\<lambda>b. None) 1 ''out.png''
               (sequential 1 1) single_queue))"
    by (rule main_finish [OF example_assemble [OF q single_small ex]])
  then have "main ?env ?a (sequential 1 1)
     = Some \<lparr>outcome = Returned,
             trace = [Exec ''heif2hevc'' [''-info'', ''in.heic''],
                      Exec ''heif2hevc'' [''in.heic'', ''out.png.7.tmp''],
                      ffmpeg_cmd ?a ''t0'', Stderr ''ffmpeg fail:'', Create ''out.png'',
                      EncodePNG ''out.png'' 0 (NewRGBA (Rect 0 0 2 2)), Close ''out.png'',
                      Remove ''t0'']\<rparr>"
    unfolding finish_example lg img png_name by simp
  with pe show ?thesis by simp
qed

text \<open>
  Claim C2, as amended. For every destination whose lower-cased extension is not
  \<^verbatim>\<open>.png\<close>, \<^verbatim>\<open>.jpg\<close> or \<^verbatim>\<open>.jpeg\<close>, a run that reaches the encode step hands
  the image to no encoder and writes no byte; when the destination can be created it
  is created (or truncated) empty, the message about the unsupported extension is
  printed and the file is closed; in both cases \<^verbatim>\<open>main\<close> returns normally.
\<close>

theorem unsupported_extension:
  assumes "assemble env a sched = Some (Inr s)"
    and "ToLower (Ext (as_dst s)) \<notin> {''.png'', ''.jpg'', ''.jpeg''}"
  shows "main env a sched = Some
           \<lparr>outcome = Returned,
            trace = as_trace s @ log (as_pool s)
              @ (if os_Create env (as_dst s)
                 then [Create (as_dst s), Stderr ''Unsupported dst file extension'',
                       Close (as_dst s)]
                 else [Stderr ''Cannot create dst file''])
              @ map Remove (as_files s)\<rparr>
       \<and> List.map_filter encoded (trace (finish env s)) = []"
proof -
  from assms(2) have u: "dst_format (as_dst s) = Unsupported"
    by (simp add: dst_format_def)
  obtain out t2 q where
    t: "as_trace s = Exec (heif2hevcPath a) [''-info'', args a ! 0] # t2"
    and h: "heif2hevc env (a\<lparr>pngCompression := - pngCompression a\<rparr>) (args a ! 0) (args a ! 1)
         = (t2, as_files s, None)"
    and p: "as_pool s = run_workers env (a\<lparr>pngCompression := - pngCompression a\<rparr>) sched
         (init_pool (threads a) q (single_tile (read_loop zero_HeifInfo out)))"
    using assemble_Inr [OF assms(1)] by blast
  have w: "write_dst env (as_flags s) (as_dst s) img
      = (if os_Create env (as_dst s)
         then [Create (as_dst s), Stderr ''Unsupported dst file extension'', Close (as_dst s)]
         else [Stderr ''Cannot create dst file''])" for img
    by (simp add: write_dst_def u)
  have 1: "finish env s = \<lparr>outcome = Returned,
            trace = as_trace s @ log (as_pool s)
              @ (if os_Create env (as_dst s)
                 then [Create (as_dst s), Stderr ''Unsupported dst file extension'',
                       Close (as_dst s)]
                 else [Stderr ''Cannot create dst file''])
              @ map Remove (as_files s)\<rparr>"
    by (simp add: finish_def w)
  have "List.map_filter encoded (as_trace s) = []"
    unfolding t heif2hevc_ok [OF h] by (simp add: map_filter_simps encoded_def)
  moreover have "List.map_filter encoded (log (as_pool s)) = []"
    unfolding p by (rule encoded_pool)
  ultimately have 2: "List.map_filter encoded (trace (finish env s)) = []"
    unfolding 1 by (simp add: map_filter_append encoded_Remove map_filter_simps encoded_def)
  from main_finish [OF assms(1)] 1 2 show ?thesis by simp
qed

text \<open>
  Claim C2, a run of the amended statement: the destination \<^verbatim>\<open>photo.GIF\<close>.
\<close>

theorem unsupported_extension_witness:
  "assemble (example_env grid_text [''t0'', ''t1''] (\<lambda>b. Some (red_blue b)))
       (example_argv 1 ''photo.GIF'') (sequential 1 2)
     = Some (Inr (example_assembly grid_text [''t0'', ''t1''] (\<lambda>b. Some (red_blue b)) 1
         ''photo.GIF'' (sequential 1 2) red_blue_queue))
   \<and> ToLower (Ext ''photo.GIF'') \<notin> {''.png'', ''.jpg'', ''.jpeg''}
   \<and> main (example_env grid_text [''t0'', ''t1''] (\<lambda>b. Some (red_blue b)))
       (example_argv 1 ''photo.GIF'') (sequential 1 2)
     = Some \<lparr>outcome = Returned,
             trace = [Exec ''heif2hevc'' [''-info'', ''in.heic''],
                      Exec ''heif2hevc'' [''in.heic'', ''photo.GIF.7.tmp''],
                      ffmpeg_cmd (example_argv 1 ''photo.GIF'') ''t0'',
                      ffmpeg_cmd (example_argv 1 ''photo.GIF'') ''t1'',
                      Create ''photo.GIF'',
                      Stderr ''Unsupported dst file extension'',
                      Close ''photo.GIF'',
                      Remove ''t0'', Remove ''t1'']\<rparr>"
proof -
  let ?env = "example_env grid_text [''t0'', ''t1''] (\<lambda>b. Some (red_blue b))"
  let ?s = "example_assembly grid_text [''t0'', ''t1''] (\<lambda>b. Some (red_blue b)) 1
         ''photo.GIF'' (sequential 1 2) red_blue_queue"
  note a = grid_assemble [of "\<lambda>b. Some (red_blue b)" "''photo.GIF''"]
  have e: "ToLower (Ext ''photo.GIF'') \<notin> {''.png'', ''.jpg'', ''.jpeg''}" by code_simp
  have e': "ToLower (Ext (as_dst ?s)) \<notin> {''.png'', ''.jpg'', ''.jpeg''}" using e by simp
  have m: "main ?env (example_argv 1 ''photo.GIF'') (sequential 1 2)
     = Some \<lparr>outcome = Returned,
             trace = [Exec ''heif2hevc'' [''-info'', ''in.heic''],
                      Exec ''heif2hevc'' [''in.heic'', ''photo.GIF.7.tmp''],
                      ffmpeg_cmd (example_argv 1 ''photo.GIF'') ''t0'',
                      ffmpeg_cmd (example_argv 1 ''photo.GIF'') ''t1'',
                      Create ''photo.GIF'',
                      Stderr ''Unsupported dst file extension'',
                      Close ''photo.GIF'',
                      Remove ''t0'', Remove ''t1'']\<rparr>"
    using unsupported_extension [OF a e', THEN conjunct1]
    unfolding example_assembly_simps red_blue_log by simp
  from a e m show ?thesis by (intro conjI)
qed

text \<open>
  Claim C2 as stated fails: with the destination \<^verbatim>\<open>out.bmp\<close> the file is created
  before the extension is looked at.
\<close>

theorem unsupported_extension_counterexample:
  "main (example_env grid_text [''t0'', ''t1''] (\<lambda>b. Some (red_blue b)))
       (example_argv 1 ''out.bmp'') (sequential 1 2)
     = Some \<lparr>outcome = Returned,
             trace = [Exec ''heif2hevc'' [''-info'', ''in.heic''],
                      Exec ''heif2hevc'' [''in.heic'', ''out.bmp.7.tmp''],
                      ffmpeg_cmd (example_argv 1 ''out.bmp'') ''t0'',
                      ffmpeg_cmd (example_argv 1 ''out.bmp'') ''t1'',
                      Create ''out.bmp'',
                      Stderr ''Unsupported dst file extension'',
                      Close ''out.bmp'',
                      Remove ''t0'', Remove ''t1'']\<rparr>"
proof -
  have "main (example_env grid_text [''t0'', ''t1''] (\<lambda>b. Some (red_blue b)))
       (example_argv 1 ''out.bmp'') (sequential 1 2)
      = Some (finish (example_env grid_text [''t0'', ''t1''] (\<lambda>b. Some (red_blue b)))
          (example_assembly grid_text [''t0'', ''t1''] (\<lambda>b. Some (red_blue b)) 1 ''out.bmp''
             (sequential 1 2) red_blue_queue))"
    by (rule main_finish [OF grid_assemble])
  then show ?thesis
    unfolding finish_example red_blue_log bmp_name by simp
qed

text \<open>
  Claim C3, as amended. For a grid of \<open>cols \<ge> 1\<close> columns whose tile files all decode
  to bitmaps of \<open>w \<times> h\<close> pixels, and a pool of at least one worker that has finished
  under any schedule: the item of list index \<open>k\<close> has column \<open>k mod cols\<close> and row
  \<open>k div cols\<close>; the item of row \<open>r\<close> and column \<open>c\<close> has index \<open>r * cols + c\<close> and the
  destination rectangle \<open>[c * w, c * w + w) \<times> [r * h, r * h + h)\<close>; every pixel of the
  canvas in that rectangle is the pixel of that tile's bitmap aligned with it; and
  processing the item is a copy that replaces: on any canvas, whatever it holds, the
  pixels of the canvas in the rectangle become the aligned pixels of the bitmap and
  every other pixel stays as it was.
\<close>

theorem tiles_placed:
  assumes q: "fill_queue 0 files cols = Inr q" and cols: "1 \<le> cols"
    and u: "uniform_tiles env a files tiles w h"
    and n: "1 \<le> n" and ex: "all_exited (run_workers env a sched (init_pool n q info))"
    and rc: "0 \<le> r" "0 \<le> c" "c < cols" and i: "nat (r * cols + c) < length files"
  shows "(\<forall>k < length files.
            q ! k = \<lparr>hevcFile = files ! k, item_x = int k mod cols, item_y = int k div cols\<rparr>)
       \<and> q ! nat (r * cols + c)
           = \<lparr>hevcFile = files ! nat (r * cols + c), item_x = c, item_y = r\<rparr>
       \<and> tile_rect (q ! nat (r * cols + c)) (tiles (files ! nat (r * cols + c)))
           = \<lparr>MinPt = \<lparr>X = c * w, Y = r * h\<rparr>, MaxPt = \<lparr>X = c * w + w, Y = r * h + h\<rparr>\<rparr>
       \<and> (\<forall>px py. In px py (Bounds (dstImg (run_workers env a sched (init_pool n q info))))
              \<and> c * w \<le> px \<and> px < c * w + w \<and> r * h \<le> py \<and> py < r * h + h
            \<longrightarrow> At (dstImg (run_workers env a sched (init_pool n q info))) px py
                = At (tiles (files ! nat (r * cols + c))) (px - c * w) (py - r * h))
       \<and> (\<forall>st px py. At (dstImg (process_item env a (q ! nat (r * cols + c)) st)) px py
            = (if In px py (Bounds (dstImg st))
                  \<and> c * w \<le> px \<and> px < c * w + w \<and> r * h \<le> py \<and> py < r * h + h
               then At (tiles (files ! nat (r * cols + c))) (px - c * w) (py - r * h)
               else At (dstImg st) px py))"
proof -
  let ?i = "nat (r * cols + c)"
  let ?st = "run_workers env a sched (init_pool n q info)"
  from cols have ab: "\<bar>cols\<bar> = cols" "sgn cols = 1" by simp_all
  have A: "\<forall>k < length files.
      q ! k = \<lparr>hevcFile = files ! k, item_x = int k mod cols, item_y = int k div cols\<rparr>"
    using fill_queue_Inr(3) [OF q] by (simp add: ab)
  from rc cols have nn: "0 \<le> r * cols + c" by simp
  then have ii: "int ?i = r * cols + c" by simp
  have md: "(r * cols + c) mod cols = c" "(r * cols + c) div cols = r"
    using rc cols by simp_all
  from A i have "q ! ?i = \<lparr>hevcFile = files ! ?i, item_x = int ?i mod cols,
      item_y = int ?i div cols\<rparr>"
    by blast
  then have B: "q ! ?i = \<lparr>hevcFile = files ! ?i, item_x = c, item_y = r\<rparr>"
    unfolding ii md .
  from u i have bt: "Bounds (tiles (files ! ?i))
      = \<lparr>MinPt = \<lparr>X = 0, Y = 0\<rparr>, MaxPt = \<lparr>X = w, Y = h\<rparr>\<rparr>"
    by (simp add: uniform_tiles_def)
  have C: "tile_rect (q ! ?i) (tiles (files ! ?i))
      = \<lparr>MinPt = \<lparr>X = c * w, Y = r * h\<rparr>, MaxPt = \<lparr>X = c * w + w, Y = r * h + h\<rparr>\<rparr>"
    unfolding tile_rect_def Let_def B bt by (simp add: add.commute [of w] add.commute [of h])
  have D: "At (dstImg ?st) px py = At (tiles (files ! ?i)) (px - c * w) (py - r * h)"
    if p: "In px py (Bounds (dstImg ?st))
         \<and> c * w \<le> px \<and> px < c * w + w \<and> r * h \<le> py \<and> py < r * h + h" for px py
  proof -
    from i fill_queue_Inr(1) [OF q] have iq: "?i < length q" by simp
    have mem: "hevcFile (q ! ?i) \<in> set files" using B i by simp
    have "tile_px env a (q ! ?i) px py = Some (At (tiles (files ! ?i)) (px - c * w) (py - r * h))"
      using p unfolding tile_px_uniform [OF u mem] by (simp add: B)
    from covering_item [OF q u iq this] p show ?thesis
      by (simp add: final_pixel [OF q u n ex])
  qed
  have E: "At (dstImg (process_item env a (q ! ?i) st)) px py
      = (if In px py (Bounds (dstImg st))
            \<and> c * w \<le> px \<and> px < c * w + w \<and> r * h \<le> py \<and> py < r * h + h
         then At (tiles (files ! ?i)) (px - c * w) (py - r * h)
         else At (dstImg st) px py)" for st px py
  proof -
    have mem: "hevcFile (q ! ?i) \<in> set files" using B i by simp
    show ?thesis
      unfolding process_item_At tile_px_uniform [OF u mem] by (simp add: B)
  qed
  from A B C D E show ?thesis by blast
qed

text \<open>
  Claim C3, a run: two 2 by 2 tiles, red and blue, on a 4 by 2 canvas; the pixel (3, 1)
  is in the block of row 0 and column 1 and is blue.
\<close>

theorem tiles_placed_witness:
  "fill_queue 0 [''t0'', ''t1''] 2 = Inr red_blue_queue
   \<and> uniform_tiles (example_env grid_text [''t0'', ''t1''] (\<lambda>b. Some (red_blue b)))
        (example_argv 1 ''out.png'') [''t0'', ''t1''] red_blue 2 2
   \<and> all_exited (run_workers (example_env grid_text [''t0'', ''t1''] (\<lambda>b. Some (red_blue b)))
        (example_argv 1 ''out.png'') (sequential 1 2) (init_pool 1 red_blue_queue grid_2x1))
   \<and> At (dstImg (run_workers (example_env grid_text [''t0'', ''t1''] (\<lambda>b. Some (red_blue b)))
        (example_argv 1 ''out.png'') (sequential 1 2) (init_pool 1 red_blue_queue grid_2x1)))
        3 1 = RGBA 0 0 255 255"
proof -
  let ?env = "example_env grid_text [''t0'', ''t1''] (\<lambda>b. Some (red_blue b))"
  let ?a = "example_argv 1 ''out.png''"
  let ?st = "run_workers ?env ?a (sequential 1 2) (init_pool 1 red_blue_queue grid_2x1)"
  note q = red_blue_fill
  have u: "uniform_tiles ?env ?a [''t0'', ''t1''] red_blue 2 2" by (rule red_blue_uniform)
  have ex: "all_exited ?st"
    by (rule sequential_exits) (simp_all add: red_blue_queue_def)
  have i: "nat (0 * 2 + 1) < length [''t0'', ''t1'']" by simp
  have b: "In 3 1 (Bounds (dstImg ?st))"
    unfolding final_pixel(1) [OF q u order_refl ex] by (simp add: In_def Rect_def grid_2x1_def)
  have c2: "(1::int) \<le> 2" "(0::int) \<le> 0" "(0::int) \<le> 1" "(1::int) < 2" by simp_all
  note T = tiles_placed [OF q c2(1) u order_refl ex c2(2) c2(3) c2(4) i]
  have p: "In 3 1 (Bounds (dstImg ?st))
      \<and> 1 * 2 \<le> (3::int) \<and> (3::int) < 1 * 2 + 2 \<and> 0 * 2 \<le> (1::int) \<and> (1::int) < 0 * 2 + 2"
    using b by simp
  from T [THEN conjunct2, THEN conjunct2, THEN conjunct2, THEN conjunct1,
      THEN spec, THEN spec, THEN mp, OF p]
  have "At (dstImg ?st) 3 1 = At (red_blue ([''t0'', ''t1''] ! nat (0 * 2 + 1))) (3 - 1 * 2) (1 - 0 * 2)" .
  then have "At (dstImg ?st) 3 1 = RGBA 0 0 255 255"
    by (simp add: red_blue_def solid_def)
  with q u ex show ?thesis by simp
qed

text \<open>
  Claim C3 as stated fails without a worker: \<^verbatim>\<open>-threads 0\<close> is accepted, the pool
  has finished at once, no item is processed, and the pixel (3, 1) of the block of row 0
  and column 1 is transparent where the tile is blue; \<^verbatim>\<open>main\<close> encodes the empty
  canvas.
\<close>

theorem tiles_placed_counterexample:
  "fill_queue 0 [''t0'', ''t1''] 2 = Inr red_blue_queue
   \<and> uniform_tiles (example_env grid_text [''t0'', ''t1''] (\<lambda>b. Some (red_blue b)))
        (example_argv 0 ''out.png'') [''t0'', ''t1''] red_blue 2 2
   \<and> all_exited (run_workers (example_env grid_text [''t0'', ''t1''] (\<lambda>b. Some (red_blue b)))
        (example_argv 0 ''out.png'') [] (init_pool 0 red_blue_queue grid_2x1))
   \<and> In 3 1 (Bounds (dstImg (run_workers
        (example_env grid_text [''t0'', ''t1''] (\<lambda>b. Some (red_blue b)))
        (example_argv 0 ''out.png'') [] (init_pool 0 red_blue_queue grid_2x1))))
   \<and> At (dstImg (run_workers (example_env grid_text [''t0'', ''t1''] (\<lambda>b. Some (red_blue b)))
        (example_argv 0 ''out.png'') [] (init_pool 0 red_blue_queue grid_2x1))) 3 1
     = RGBA 0 0 0 0
   \<and> At (red_blue ([''t0'', ''t1''] ! nat (0 * 2 + 1))) (3 - 1 * 2) (1 - 0 * 2)
     = RGBA 0 0 255 255
   \<and> main (example_env grid_text [''t0'', ''t1''] (\<lambda>b. Some (red_blue b)))
       (example_argv 0 ''out.png'') []
     = Some \<lparr>outcome = Returned,
             trace = [Exec ''heif2hevc'' [''-info'', ''in.heic''],
                      Exec ''heif2hevc'' [''in.heic'', ''out.png.7.tmp''],
                      Create ''out.png'',
                      EncodePNG ''out.png'' 0 (NewRGBA (Rect 0 0 4 2)),
                      Close ''out.png'',
                      Remove ''t0'', Remove ''t1'']\<rparr>"
proof -
  let ?env = "example_env grid_text [''t0'', ''t1''] (\<lambda>b. Some (red_blue b))"
  let ?a = "example_argv 0 ''out.png''"
  let ?Z = "run_workers ?env ?a [] (init_pool 0 red_blue_queue grid_2x1)"
  let ?info = "single_tile (read_loop zero_HeifInfo grid_text)"
  have u: "uniform_tiles ?env ?a [''t0'', ''t1''] red_blue 2 2" by (rule red_blue_uniform)
  have eZ: "all_exited ?Z" by (simp add: all_exited_def)
  have b: "In 3 1 (Bounds (dstImg ?Z))"
    by (simp add: NewRGBA_def In_def Rect_def grid_2x1_def)
  have p: "At (dstImg ?Z) 3 1 = RGBA 0 0 0 0" by (simp add: NewRGBA_def)
  have t: "At (red_blue ([''t0'', ''t1''] ! nat (0 * 2 + 1))) (3 - 1 * 2) (1 - 0 * 2)
      = RGBA 0 0 255 255"
    by (simp add: red_blue_def solid_def)
  have inf: "?info = grid_2x1" by (simp add: grid_text_info grid_single_tile)
  have ex: "all_exited (run_workers ?env ?a [] (init_pool 0 red_blue_queue ?info))"
    by (simp add: all_exited_def)
  have lg: "log (run_workers ?env ?a [] (init_pool 0 red_blue_queue ?info)) = []" by simp
  have img: "dstImg (run_workers ?env ?a [] (init_pool 0 red_blue_queue ?info))
      = NewRGBA (Rect 0 0 4 2)"
    unfolding inf by (simp add: grid_2x1_def)
  have "main ?env ?a []
      = Some (finish ?env (example_assembly grid_text [''t0'', ''t1''] (\<lambda>b. Some (red_blue b))
               0 ''out.png'' [] red_blue_queue))"
    by (rule main_finish [OF example_assemble [OF grid_fill grid_small ex]])
  then have m: "main ?env ?a []
     = Some \<lparr>outcome = Returned,
             trace = [Exec ''heif2hevc'' [''-info'', ''in.heic''],
                      Exec ''heif2hevc'' [''in.heic'', ''out.png.7.tmp''],
                      Create ''out.png'',
                      EncodePNG ''out.png'' 0 (NewRGBA (Rect 0 0 4 2)),
                      Close ''out.png'',
                      Remove ''t0'', Remove ''t1'']\<rparr>"
    unfolding finish_example lg img png_name by simp
  from red_blue_fill u eZ b p t m show ?thesis by (intro conjI)
qed

text \<open>
  Claim C4. Whenever \<^verbatim>\<open>main\<close> reaches the assembly, and the metadata text gives
  a tile count of 1, the grid descriptor used by the assembly has rows and columns 1,
  whatever rows and columns the text reports: it is the parsed descriptor with both
  set to 1, the queue is built with one column and the pool works on it.
\<close>

theorem single_tile_forced:
  assumes "assemble env a sched = Some (Inr s)"
    and "run_info env (heif2hevcPath a) (args a ! 0) = Inr out"
    and "Tiles (read_loop zero_HeifInfo out) = 1"
  shows "Rows (as_info s) = 1 \<and> Cols (as_info s) = 1
       \<and> as_info s = (read_loop zero_HeifInfo out)\<lparr>Cols := 1, Rows := 1\<rparr>
       \<and> (\<exists>q. fill_queue 0 (as_files s) 1 = Inr q
            \<and> as_pool s = run_workers env (as_flags s) sched
                 (init_pool (threads a) q (as_info s)))"
proof -
  obtain out' t2 q where
    o: "run_info env (heif2hevcPath a) (args a ! 0) = Inr out'"
    and i: "as_info s = single_tile (read_loop zero_HeifInfo out')"
    and f: "as_flags s = a\<lparr>pngCompression := - pngCompression a\<rparr>"
    and q: "fill_queue 0 (as_files s) (Cols (single_tile (read_loop zero_HeifInfo out'))) = Inr q"
    and p: "as_pool s = run_workers env (a\<lparr>pngCompression := - pngCompression a\<rparr>) sched
         (init_pool (threads a) q (single_tile (read_loop zero_HeifInfo out')))"
    using assemble_Inr [OF assms(1)] by blast
  from o assms(2) have "out' = out" by simp
  with i assms(3) have 1: "as_info s = (read_loop zero_HeifInfo out)\<lparr>Cols := 1, Rows := 1\<rparr>"
    by (simp add: single_tile_def)
  then have 2: "Rows (as_info s) = 1" "Cols (as_info s) = 1" by simp_all
  from q p have "fill_queue 0 (as_files s) 1 = Inr q
      \<and> as_pool s = run_workers env (as_flags s) sched (init_pool (threads a) q (as_info s))"
    using 2(2) unfolding i f by simp
  with 1 2 show ?thesis by blast
qed

text \<open>
  Claim C4, a run: the text reports one tile, six rows and no column.
\<close>

theorem single_tile_forced_witness:
  "assemble (example_env single_text [''t0''] (\<lambda>b. Some (red_blue b))) (example_argv 1 ''out.png'')
       (sequential 1 1)
     = Some (Inr (example_assembly single_text [''t0''] (\<lambda>b. Some (red_blue b)) 1 ''out.png''
         (sequential 1 1) single_queue))
   \<and> Tiles (read_loop zero_HeifInfo single_text) = 1
   \<and> Rows (read_loop zero_HeifInfo single_text) = 6
   \<and> Cols (read_loop zero_HeifInfo single_text) = 0
   \<and> Rows (as_info (example_assembly single_text [''t0''] (\<lambda>b. Some (red_blue b)) 1 ''out.png''
         (sequential 1 1) single_queue)) = 1
   \<and> Cols (as_info (example_assembly single_text [''t0''] (\<lambda>b. Some (red_blue b)) 1 ''out.png''
         (sequential 1 1) single_queue)) = 1"
proof -
  let ?env = "example_env single_text [''t0''] (\<lambda>b. Some (red_blue b))"
  let ?a = "example_argv 1 ''out.png''"
  let ?info = "single_tile (read_loop zero_HeifInfo single_text)"
  let ?s = "example_assembly single_text [''t0''] (\<lambda>b. Some (red_blue b)) 1 ''out.png''
         (sequential 1 1) single_queue"
  have "Cols ?info = 1" by (simp add: single_text_tile)
  then have q: "fill_queue 0 [''t0''] (Cols ?info) = Inr single_queue"
    by (simp only: single_fill)
  have k: "1 = length single_queue" by (simp add: single_queue_def)
  have ex: "all_exited (run_workers ?env ?a (sequential 1 1) (init_pool 1 single_queue ?info))"
    by (rule sequential_exits [OF order_refl k])
  note a = example_assemble [OF q single_small ex]
  have r: "run_info ?env (heif2hevcPath ?a) (args ?a ! 0) = Inr single_text" by simp
  have t: "Tiles (read_loop zero_HeifInfo single_text) = 1"
    "Rows (read_loop zero_HeifInfo single_text) = 6"
    "Cols (read_loop zero_HeifInfo single_text) = 0"
    by (simp_all add: single_text_info)
  from single_tile_forced [OF a r t(1)] have "Rows (as_info ?s) = 1 \<and> Cols (as_info ?s) = 1"
    by blast
  with a t show ?thesis by (intro conjI) simp_all
qed

text \<open>
  Claim C5, as amended. For every metadata stream, cut into its terminated lines \<open>ls\<close>
  and the unterminated rest: the lines whose value does not parse, the lines whose name
  is not recognised and the rest are skipped, and the result is that of the stream
  made of the other lines alone; a field that no line assigns is 0; and the result is
  the same for every order of the lines, provided that no two lines of the stream
  assign the same field. When two lines assign the same field, the later one wins:
  every field is the value of the last line that assigns it, and 0 when there is none.
\<close>

theorem heifGetInfo_lines:
  assumes "\<forall>l \<in> set ls. CHR 0x0A \<notin> set l" and "CHR 0x0A \<notin> set rest"
  shows "read_loop zero_HeifInfo (stream ls rest)
           = read_loop zero_HeifInfo (stream [l \<leftarrow> ls. assigned (l @ [CHR 0x0A]) \<noteq> None] [])
       \<and> (\<forall>name. (\<forall>l \<in> set ls. map_option fst (assigned (l @ [CHR 0x0A])) \<noteq> Some name)
            \<longrightarrow> field name (read_loop zero_HeifInfo (stream ls rest)) = 0)
       \<and> (\<forall>ls'. mset ls' = mset ls
                 \<and> distinct (map fst (List.map_filter assigned (terminated ls)))
            \<longrightarrow> read_loop zero_HeifInfo (stream ls' rest)
                = read_loop zero_HeifInfo (stream ls rest))
       \<and> (\<forall>name. field name (read_loop zero_HeifInfo (stream ls rest))
             = (if values_of name (terminated ls) = [] then 0
                else last (values_of name (terminated ls))))"
proof (intro conjI allI impI)
  let ?keep = "[l \<leftarrow> ls. assigned (l @ [CHR 0x0A]) \<noteq> None]"
  let ?f = "\<lambda>l i. assign_line i l"
  have t: "terminated ?keep = [l \<leftarrow> terminated ls. assigned l \<noteq> None]"
    unfolding terminated_def filter_map comp_def ..
  have k: "\<forall>l \<in> set ?keep. CHR 0x0A \<notin> set l" using assms(1) by simp
  have e: "CHR 0x0A \<notin> set ([] :: string)" by simp
  have "read_loop zero_HeifInfo (stream ?keep []) = fold ?f (terminated ?keep) zero_HeifInfo"
    by (rule read_loop_stream [OF k e])
  also have "\<dots> = fold ?f (terminated ls) zero_HeifInfo"
    unfolding t by (rule fold_assign_filter)
  also have "\<dots> = read_loop zero_HeifInfo (stream ls rest)"
    by (rule read_loop_stream [OF assms, symmetric])
  finally show "read_loop zero_HeifInfo (stream ls rest)
      = read_loop zero_HeifInfo (stream ?keep [])" ..
next
  fix name
  assume "\<forall>l \<in> set ls. map_option fst (assigned (l @ [CHR 0x0A])) \<noteq> Some name"
  then have "\<forall>l \<in> set (terminated ls). map_option fst (assigned l) \<noteq> Some name"
    unfolding terminated_def by simp
  then have "field name (fold (\<lambda>l i. assign_line i l) (terminated ls) zero_HeifInfo)
      = field name zero_HeifInfo"
    by (rule field_fold_other)
  then show "field name (read_loop zero_HeifInfo (stream ls rest)) = 0"
    unfolding read_loop_stream [OF assms] field_zero .
next
  fix ls'
  assume a: "mset ls' = mset ls
    \<and> distinct (map fst (List.map_filter assigned (terminated ls)))"
  then have "set ls' = set ls" by (metis set_mset_mset)
  with assms(1) have nl: "\<forall>l \<in> set ls'. CHR 0x0A \<notin> set l" by simp
  from a have m: "mset (terminated ls') = mset (terminated ls)"
    unfolding terminated_def by simp
  from a have d: "distinct (map fst (List.map_filter assigned (terminated ls)))" ..
  show "read_loop zero_HeifInfo (stream ls' rest) = read_loop zero_HeifInfo (stream ls rest)"
    unfolding read_loop_stream [OF assms] read_loop_stream [OF nl assms(2)]
    by (rule fold_assign_permute [OF m d])
next
  fix name
  show "field name (read_loop zero_HeifInfo (stream ls rest))
      = (if values_of name (terminated ls) = [] then 0
         else last (values_of name (terminated ls)))"
    unfolding read_loop_stream [OF assms] field_fold_values field_zero ..
qed

text \<open>
  Claim C5, a stream with a line without \<^verbatim>\<open>=\<close>, an unknown name, a value that
  is no integer and an unterminated last line; and a stream with two lines for the
  width, of which the later one wins.
\<close>

theorem heifGetInfo_lines_witness:
  "read_loop zero_HeifInfo
       (stream [''width=4'', ''junk'', ''depth=8'', ''height=abc'', ''cols= 2 ''] ''rows=3'')
     = read_loop zero_HeifInfo (stream [''width=4'', ''cols= 2 ''] [])
   \<and> field ''height''
       (read_loop zero_HeifInfo
          (stream [''width=4'', ''junk'', ''depth=8'', ''height=abc'', ''cols= 2 ''] ''rows=3'')) = 0
   \<and> read_loop zero_HeifInfo
       (stream [''cols= 2 '', ''height=abc'', ''junk'', ''depth=8'', ''width=4''] ''rows=3'')
     = read_loop zero_HeifInfo
       (stream [''width=4'', ''junk'', ''depth=8'', ''height=abc'', ''cols= 2 ''] ''rows=3'')
   \<and> field ''cols''
       (read_loop zero_HeifInfo
          (stream [''width=4'', ''junk'', ''depth=8'', ''height=abc'', ''cols= 2 ''] ''rows=3'')) = 2
   \<and> values_of ''width'' (terminated [''width=1'', ''tiles=9'', ''width=2'']) = [1, 2]
   \<and> field ''width''
       (read_loop zero_HeifInfo (stream [''width=1'', ''tiles=9'', ''width=2''] [])) = 2"
proof -
  let ?ls = "[''width=4'', ''junk'', ''depth=8'', ''height=abc'', ''cols= 2 '']"
  let ?ls' = "[''cols= 2 '', ''height=abc'', ''junk'', ''depth=8'', ''width=4'']"
  let ?dup = "[''width=1'', ''tiles=9'', ''width=2'']"
  have h1: "\<forall>l \<in> set ?ls. CHR 0x0A \<notin> set l" by code_simp
  have h2: "CHR 0x0A \<notin> set ''rows=3''" by code_simp
  have keep: "[l \<leftarrow> ?ls. assigned (l @ [CHR 0x0A]) \<noteq> None] = [''width=4'', ''cols= 2 '']"
    by code_simp
  have names: "\<forall>l \<in> set ?ls. map_option fst (assigned (l @ [CHR 0x0A])) \<noteq> Some ''height''"
    by code_simp
  have dist: "distinct (map fst (List.map_filter assigned (terminated ?ls)))"
    by code_simp
  have perm: "mset ?ls' = mset ?ls"
    by (simp add: add.commute)
  have vc: "values_of ''cols'' (terminated ?ls) = [2]" by code_simp
  note T = heifGetInfo_lines [OF h1 h2]
  have A: "read_loop zero_HeifInfo (stream ?ls ''rows=3'')
      = read_loop zero_HeifInfo (stream [''width=4'', ''cols= 2 ''] [])"
    using T [THEN conjunct1] unfolding keep .
  have B: "field ''height'' (read_loop zero_HeifInfo (stream ?ls ''rows=3'')) = 0"
    using T [THEN conjunct2, THEN conjunct1, THEN spec, THEN mp, OF names] .
  have C: "read_loop zero_HeifInfo (stream ?ls' ''rows=3'')
      = read_loop zero_HeifInfo (stream ?ls ''rows=3'')"
    using T [THEN conjunct2, THEN conjunct2, THEN conjunct1, THEN spec, THEN mp,
        OF conjI [OF perm dist]] .
  have D: "field ''cols'' (read_loop zero_HeifInfo (stream ?ls ''rows=3'')) = 2"
    using T [THEN conjunct2, THEN conjunct2, THEN conjunct2, THEN spec, of "''cols''"]
    unfolding vc by simp
  have g1: "\<forall>l \<in> set ?dup. CHR 0x0A \<notin> set l" by code_simp
  have g2: "CHR 0x0A \<notin> set ([] :: string)" by simp
  have vw: "values_of ''width'' (terminated ?dup) = [1, 2]" by code_simp
  have E: "field ''width'' (read_loop zero_HeifInfo (stream ?dup [])) = 2"
    using heifGetInfo_lines [OF g1 g2, THEN conjunct2, THEN conjunct2, THEN conjunct2,
        THEN spec, of "''width''"]
    unfolding vw by simp
  from A B C D vw E show ?thesis by (intro conjI)
qed

text \<open>
  Claim C5 as stated fails: two lines that assign the same field, in both orders; the
  width is that of the later line each time.
\<close>

theorem heifGetInfo_order_counterexample:
  "Width (read_loop zero_HeifInfo (stream [''width=1'', ''width=2''] [])) = 2
   \<and> Width (read_loop zero_HeifInfo (stream [''width=2'', ''width=1''] [])) = 1
   \<and> mset [''width=2'', ''width=1''] = mset [''width=1'', ''width=2'']
   \<and> read_loop zero_HeifInfo (stream [''width=1'', ''width=2''] [])
     \<noteq> read_loop zero_HeifInfo (stream [''width=2'', ''width=1''] [])"
proof -
  have a: "Width (read_loop zero_HeifInfo (stream [''width=1'', ''width=2''] [])) = 2"
    by code_simp
  have b: "Width (read_loop zero_HeifInfo (stream [''width=2'', ''width=1''] [])) = 1"
    by code_simp
  have c: "mset [''width=2'', ''width=1''] = mset [''width=1'', ''width=2'']"
    by (simp add: add.commute)
  have d: "read_loop zero_HeifInfo (stream [''width=1'', ''width=2''] [])
     \<noteq> read_loop zero_HeifInfo (stream [''width=2'', ''width=1''] [])"
  proof (rule notI)
    assume "read_loop zero_HeifInfo (stream [''width=1'', ''width=2''] [])
       = read_loop zero_HeifInfo (stream [''width=2'', ''width=1''] [])"
    then have "Width (read_loop zero_HeifInfo (stream [''width=1'', ''width=2''] []))
       = Width (read_loop zero_HeifInfo (stream [''width=2'', ''width=1''] []))"
      by (rule arg_cong)
    with a b show False by simp
  qed
  from a b c d show ?thesis by (intro conjI)
qed

text \<open>
  Claim C6. In every run of \<^verbatim>\<open>main\<close> that reaches the end of the assembly and in
  which a tile decode failed (the decoder's failure message is in the log of the
  pool), the decoder was run exactly once for every tile file of the batch, and the
  error slot holds the error of a tile that failed.
\<close>

theorem failed_decode_recorded_and_all_decoded:
  assumes "assemble env a sched = Some (Inr s)"
    and "Stderr ''ffmpeg fail:'' \<in> set (log (as_pool s))"
  shows "mset (filter is_Exec (log (as_pool s)))
           = mset (map (ffmpeg_cmd (as_flags s)) (as_files s))
       \<and> (\<exists>f \<in> set (as_files s). \<exists>e.
             snd (hevc2Image env (as_flags s) f) = Inl e \<and> processError (as_pool s) = Some e)"
proof -
  let ?a = "a\<lparr>pngCompression := - pngCompression a\<rparr>"
  obtain out t2 q where
    f: "as_flags s = ?a"
    and q: "fill_queue 0 (as_files s) (Cols (single_tile (read_loop zero_HeifInfo out))) = Inr q"
    and p: "as_pool s = run_workers env ?a sched
         (init_pool (threads a) q (single_tile (read_loop zero_HeifInfo out)))"
    and ex: "all_exited (as_pool s)"
    using assemble_Inr [OF assms(1)] by blast
  let ?info = "single_tile (read_loop zero_HeifInfo out)"
  let ?ini = "init_pool (threads a) q ?info"
  have n: "1 \<le> threads a"
  proof (rule ccontr)
    assume "\<not> 1 \<le> threads a"
    then have "threads a \<le> 0" by simp
    from pool_no_workers [OF this] p have "log (as_pool s) = []" by simp
    with assms(2) show False by simp
  qed
  from pool_finished [OF ex [unfolded p] n] obtain ds where
    ds: "mset ds = mset q" "core (as_pool s) = fold (process_item env ?a) ds (core ?ini)"
    unfolding p by blast
  have lg: "log (as_pool s) = log (fold (process_item env ?a) ds (core ?ini))"
    using ds(2) by (metis core_fields(2))
  have pe: "processError (as_pool s) = processError (fold (process_item env ?a) ds (core ?ini))"
    using ds(2) by (metis core_fields(3))
  have "filter is_Exec (log (as_pool s)) = map (\<lambda>f. ffmpeg_cmd ?a (hevcFile f)) ds"
    unfolding lg fold_items_execs by simp
  then have "mset (filter is_Exec (log (as_pool s)))
      = mset (map (\<lambda>f. ffmpeg_cmd ?a (hevcFile f)) q)"
    using ds(1) by (metis mset_map)
  also have "map (\<lambda>f. ffmpeg_cmd ?a (hevcFile f)) q = map (ffmpeg_cmd ?a) (map hevcFile q)"
    by simp
  also have "map hevcFile q = as_files s" by (rule fill_queue_files [OF q])
  finally have A: "mset (filter is_Exec (log (as_pool s)))
      = mset (map (ffmpeg_cmd (as_flags s)) (as_files s))"
    unfolding f .
  from assms(2) have "\<exists>g \<in> set ds. decode_error env ?a g \<noteq> None"
    unfolding lg fold_items_fail_logged by simp
  from fold_items_error [OF this, of "core ?ini"] obtain g where
    g: "g \<in> set ds" "decode_error env ?a g \<noteq> None"
      "processError (as_pool s) = decode_error env ?a g"
    unfolding pe by blast
  from g(2) obtain e where e: "snd (hevc2Image env ?a (hevcFile g)) = Inl e"
    "decode_error env ?a g = Some e"
    by (auto simp: decode_error_def split: sum.splits)
  from g(1) ds(1) have "g \<in> set q" by (metis set_mset_mset)
  then have "hevcFile g \<in> set (as_files s)"
    using fill_queue_files [OF q] by (metis image_eqI set_map)
  with e g(3) have B: "\<exists>f \<in> set (as_files s). \<exists>e.
      snd (hevc2Image env (as_flags s) f) = Inl e \<and> processError (as_pool s) = Some e"
    unfolding f by auto
  from A B show ?thesis ..
qed

text \<open>
  Claim C6, a run: the first of two tiles fails to decode, the second is still decoded.
\<close>

theorem failed_decode_recorded_and_all_decoded_witness:
  "assemble (example_env grid_text [''t0'', ''t1''] fail_first) (example_argv 1 ''out.png'')
       (sequential 1 2)
     = Some (Inr (example_assembly grid_text [''t0'', ''t1''] fail_first 1 ''out.png''
         (sequential 1 2) red_blue_queue))
   \<and> Stderr ''ffmpeg fail:'' \<in> set (log (as_pool (example_assembly grid_text [''t0'', ''t1'']
         fail_first 1 ''out.png'' (sequential 1 2) red_blue_queue)))
   \<and> mset (filter is_Exec (log (as_pool (example_assembly grid_text [''t0'', ''t1'']
         fail_first 1 ''out.png'' (sequential 1 2) red_blue_queue))))
     = mset [ffmpeg_cmd (example_argv 1 ''out.png'') ''t0'',
             ffmpeg_cmd (example_argv 1 ''out.png'') ''t1'']
   \<and> processError (as_pool (example_assembly grid_text [''t0'', ''t1'']
         fail_first 1 ''out.png'' (sequential 1 2) red_blue_queue)) \<noteq> None"
proof -
  let ?env = "example_env grid_text [''t0'', ''t1''] fail_first"
  let ?s = "example_assembly grid_text [''t0'', ''t1''] fail_first 1 ''out.png''
         (sequential 1 2) red_blue_queue"
  note a = grid_assemble [of fail_first "''out.png''"]
  have l: "Stderr ''ffmpeg fail:'' \<in> set (log (as_pool ?s))"
    unfolding example_assembly_simps fail_first_log by simp
  note T = failed_decode_recorded_and_all_decoded [OF a l]
  have m: "mset (filter is_Exec (log (as_pool ?s)))
      = mset [ffmpeg_cmd (example_argv 1 ''out.png'') ''t0'',
              ffmpeg_cmd (example_argv 1 ''out.png'') ''t1'']"
    using T [THEN conjunct1] unfolding example_assembly_simps(1,4) by simp
  have p: "processError (as_pool ?s) \<noteq> None"
    using T [THEN conjunct2] by auto
  from a l m p show ?thesis by (intro conjI)
qed

text \<open>
  Claim C7. When the rotation of the grid descriptor is 0, the rotation step returns
  the assembled canvas itself, and the only image that \<^verbatim>\<open>main\<close> hands to an encoder
  (when the destination can be created and its extension is supported) is that canvas.
\<close>

theorem rotation_zero_passes_canvas:
  assumes "assemble env a sched = Some (Inr s)" and "Rotation (as_info s) = 0"
  shows "rotate_step env (as_info s) (dstImg (as_pool s)) = dstImg (as_pool s)
       \<and> main env a sched = Some (finish env s)
       \<and> List.map_filter encoded (trace (finish env s))
           = (if os_Create env (as_dst s) \<and> dst_format (as_dst s) \<noteq> Unsupported
              then [dstImg (as_pool s)] else [])"
proof -
  obtain out t2 q where
    t: "as_trace s = Exec (heif2hevcPath a) [''-info'', args a ! 0] # t2"
    and h: "heif2hevc env (a\<lparr>pngCompression := - pngCompression a\<rparr>) (args a ! 0) (args a ! 1)
         = (t2, as_files s, None)"
    and p: "as_pool s = run_workers env (a\<lparr>pngCompression := - pngCompression a\<rparr>) sched
         (init_pool (threads a) q (single_tile (read_loop zero_HeifInfo out)))"
    using assemble_Inr [OF assms(1)] by blast
  have r: "rotate_step env (as_info s) (dstImg (as_pool s)) = dstImg (as_pool s)"
    using assms(2) by (simp add: rotate_step_def)
  have 1: "List.map_filter encoded (as_trace s) = []"
    unfolding t heif2hevc_ok [OF h] by (simp add: map_filter_simps encoded_def)
  have 2: "List.map_filter encoded (log (as_pool s)) = []"
    unfolding p by (rule encoded_pool)
  have 3: "List.map_filter encoded (write_dst env (as_flags s) (as_dst s) img)
      = (if os_Create env (as_dst s) \<and> dst_format (as_dst s) \<noteq> Unsupported
         then [img] else [])" for img
    by (cases "dst_format (as_dst s)")
       (simp_all add: write_dst_def map_filter_simps encoded_def map_filter_append)
  have "List.map_filter encoded (trace (finish env s))
      = (if os_Create env (as_dst s) \<and> dst_format (as_dst s) \<noteq> Unsupported
         then [dstImg (as_pool s)] else [])"
    unfolding finish_def r by (simp add: map_filter_append 1 2 3 encoded_Remove)
  with r main_finish [OF assms(1)] show ?thesis by simp
qed

text \<open>
  Claim C7, a run with rotation 0 and a PNG destination.
\<close>

theorem rotation_zero_passes_canvas_witness:
  "assemble (example_env grid_text [''t0'', ''t1''] (\<lambda>b. Some (red_blue b)))
       (example_argv 1 ''out.png'') (sequential 1 2)
     = Some (Inr (example_assembly grid_text [''t0'', ''t1''] (\<lambda>b. Some (red_blue b)) 1
         ''out.png'' (sequential 1 2) red_blue_queue))
   \<and> Rotation (as_info (example_assembly grid_text [''t0'', ''t1''] (\<lambda>b. Some (red_blue b)) 1
         ''out.png'' (sequential 1 2) red_blue_queue)) = 0
   \<and> List.map_filter encoded
        (trace (finish (example_env grid_text [''t0'', ''t1''] (\<lambda>b. Some (red_blue b)))
           (example_assembly grid_text [''t0'', ''t1''] (\<lambda>b. Some (red_blue b)) 1
              ''out.png'' (sequential 1 2) red_blue_queue)))
     = [dstImg (as_pool (example_assembly grid_text [''t0'', ''t1''] (\<lambda>b. Some (red_blue b)) 1
         ''out.png'' (sequential 1 2) red_blue_queue))]"
proof -
  let ?env = "example_env grid_text [''t0'', ''t1''] (\<lambda>b. Some (red_blue b))"
  let ?s = "example_assembly grid_text [''t0'', ''t1''] (\<lambda>b. Some (red_blue b)) 1
         ''out.png'' (sequential 1 2) red_blue_queue"
  note a = grid_assemble [of "\<lambda>b. Some (red_blue b)" "''out.png''"]
  have r: "Rotation (as_info ?s) = 0"
    by (simp add: grid_text_info grid_single_tile) (simp add: grid_2x1_def)
  have c: "os_Create ?env (as_dst ?s) \<and> dst_format (as_dst ?s) \<noteq> Unsupported"
    by (simp add: png_name)
  note T = rotation_zero_passes_canvas [OF a r, THEN conjunct2, THEN conjunct2]
  have e: "List.map_filter encoded (trace (finish ?env ?s)) = [dstImg (as_pool ?s)]"
    using T c by (simp only: if_True simp_thms)
  from a r e show ?thesis by (intro conjI)
qed

text \<open>
  Claim C8, as amended. For every grid descriptor for which the queue can be built and
  every list of tile files that all decode to bitmaps of one size \<open>w \<times> h\<close>, the
  canvas left by the pool is the same for every schedule of the workers and every
  number of workers that is at least 1.
\<close>

theorem canvas_schedule_independent:
  assumes "fill_queue 0 files cols = Inr q" and "uniform_tiles env a files tiles w h"
    and "1 \<le> n1" and "all_exited (run_workers env a sched1 (init_pool n1 q info))"
    and "1 \<le> n2" and "all_exited (run_workers env a sched2 (init_pool n2 q info))"
  shows "dstImg (run_workers env a sched1 (init_pool n1 q info))
       = dstImg (run_workers env a sched2 (init_pool n2 q info))"
proof (rule Image.equality)
  show "Bounds (dstImg (run_workers env a sched1 (init_pool n1 q info)))
      = Bounds (dstImg (run_workers env a sched2 (init_pool n2 q info)))"
    by (simp add: final_pixel(1) [OF assms(1,2,3,4)] final_pixel(1) [OF assms(1,2,5,6)])
next
  show "At (dstImg (run_workers env a sched1 (init_pool n1 q info)))
      = At (dstImg (run_workers env a sched2 (init_pool n2 q info)))"
    by (intro ext)
       (simp only: final_pixel(2) [OF assms(1,2,3,4)] final_pixel(2) [OF assms(1,2,5,6)])
qed simp

text \<open>
  Claim C8, two runs of the amended statement: one worker, and two workers that
  finish the two tiles in the opposite order.
\<close>

theorem canvas_schedule_independent_witness:
  "fill_queue 0 [''t0'', ''t1''] 2 = Inr red_blue_queue
   \<and> uniform_tiles (example_env grid_text [''t0'', ''t1''] (\<lambda>b. Some (red_blue b)))
        (example_argv 2 ''out.png'') [''t0'', ''t1''] red_blue 2 2
   \<and> all_exited (run_workers (example_env grid_text [''t0'', ''t1''] (\<lambda>b. Some (red_blue b)))
        (example_argv 2 ''out.png'') (sequential 1 2) (init_pool 1 red_blue_queue grid_2x1))
   \<and> all_exited (run_workers (example_env grid_text [''t0'', ''t1''] (\<lambda>b. Some (red_blue b)))
        (example_argv 2 ''out.png'') [0, 1, 1, 0, 0, 1] (init_pool 2 red_blue_queue grid_2x1))
   \<and> dstImg (run_workers (example_env grid_text [''t0'', ''t1''] (\<lambda>b. Some (red_blue b)))
        (example_argv 2 ''out.png'') (sequential 1 2) (init_pool 1 red_blue_queue grid_2x1))
     = dstImg (run_workers (example_env grid_text [''t0'', ''t1''] (\<lambda>b. Some (red_blue b)))
        (example_argv 2 ''out.png'') [0, 1, 1, 0, 0, 1] (init_pool 2 red_blue_queue grid_2x1))"
proof -
  let ?env = "example_env grid_text [''t0'', ''t1''] (\<lambda>b. Some (red_blue b))"
  let ?a = "example_argv 2 ''out.png''"
  note q = red_blue_fill
  have u: "uniform_tiles ?env ?a [''t0'', ''t1''] red_blue 2 2" by (rule red_blue_uniform)
  have e1: "all_exited (run_workers ?env ?a (sequential 1 2) (init_pool 1 red_blue_queue grid_2x1))"
    by (rule sequential_exits) (simp_all add: red_blue_queue_def)
  have e2: "all_exited (run_workers ?env ?a [0, 1, 1, 0, 0, 1] (init_pool 2 red_blue_queue grid_2x1))"
    by (rule interleaved_exits)
  have n2: "(1::int) \<le> 2" by simp
  from canvas_schedule_independent [OF q u order_refl e1 n2 e2] q u e1 e2
  show ?thesis by simp
qed

text \<open>
  Claim C8 as stated fails. With a tile of 4 by 2 pixels followed by one of 2 by 2 the
  destination rectangles overlap, and two schedules of two workers leave different
  canvases; and a pool of no worker leaves the canvas empty, unlike a pool of one.
\<close>

theorem canvas_order_counterexample:
  "fill_queue 0 [''t0'', ''t1''] 2 = Inr red_blue_queue
   \<and> all_exited (run_workers (example_env grid_text [''t0'', ''t1''] (\<lambda>b. Some (wide_red_blue b)))
        (example_argv 2 ''out.png'') [0, 0, 0, 0, 0, 1] (init_pool 2 red_blue_queue grid_2x1))
   \<and> all_exited (run_workers (example_env grid_text [''t0'', ''t1''] (\<lambda>b. Some (wide_red_blue b)))
        (example_argv 2 ''out.png'') [0, 1, 1, 0, 0, 1] (init_pool 2 red_blue_queue grid_2x1))
   \<and> dstImg (run_workers (example_env grid_text [''t0'', ''t1''] (\<lambda>b. Some (wide_red_blue b)))
        (example_argv 2 ''out.png'') [0, 0, 0, 0, 0, 1] (init_pool 2 red_blue_queue grid_2x1))
     \<noteq> dstImg (run_workers (example_env grid_text [''t0'', ''t1''] (\<lambda>b. Some (wide_red_blue b)))
        (example_argv 2 ''out.png'') [0, 1, 1, 0, 0, 1] (init_pool 2 red_blue_queue grid_2x1))
   \<and> all_exited (run_workers (example_env grid_text [''t0'', ''t1''] (\<lambda>b. Some (red_blue b)))
        (example_argv 0 ''out.png'') [] (init_pool 0 red_blue_queue grid_2x1))
   \<and> all_exited (run_workers (example_env grid_text [''t0'', ''t1''] (\<lambda>b. Some (red_blue b)))
        (example_argv 1 ''out.png'') (sequential 1 2) (init_pool 1 red_blue_queue grid_2x1))
   \<and> dstImg (run_workers (example_env grid_text [''t0'', ''t1''] (\<lambda>b. Some (red_blue b)))
        (example_argv 0 ''out.png'') [] (init_pool 0 red_blue_queue grid_2x1))
     \<noteq> dstImg (run_workers (example_env grid_text [''t0'', ''t1''] (\<lambda>b. Some (red_blue b)))
        (example_argv 1 ''out.png'') (sequential 1 2) (init_pool 1 red_blue_queue grid_2x1))"
proof -
  let ?wide = "example_env grid_text [''t0'', ''t1''] (\<lambda>b. Some (wide_red_blue b))"
  let ?env = "example_env grid_text [''t0'', ''t1''] (\<lambda>b. Some (red_blue b))"
  let ?A = "run_workers ?wide (example_argv 2 ''out.png'') [0, 0, 0, 0, 0, 1]
              (init_pool 2 red_blue_queue grid_2x1)"
  let ?B = "run_workers ?wide (example_argv 2 ''out.png'') [0, 1, 1, 0, 0, 1]
              (init_pool 2 red_blue_queue grid_2x1)"
  let ?Z = "run_workers ?env (example_argv 0 ''out.png'') [] (init_pool 0 red_blue_queue grid_2x1)"
  let ?S = "run_workers ?env (example_argv 1 ''out.png'') (sequential 1 2)
              (init_pool 1 red_blue_queue grid_2x1)"
  have eA: "all_exited ?A" by (rule sequential2_exits)
  have eB: "all_exited ?B" by (rule interleaved_exits)
  have "At (dstImg ?A) 2 0 = RGBA 0 0 255 255" by (rule wide_sequential_pixel)
  moreover have "At (dstImg ?B) 2 0 = RGBA 255 0 0 255" by (rule wide_interleaved_pixel)
  ultimately have "At (dstImg ?A) 2 0 \<noteq> At (dstImg ?B) 2 0" by simp
  then have AB: "dstImg ?A \<noteq> dstImg ?B" by metis
  have eZ: "all_exited ?Z" by (simp add: all_exited_def)
  have eS: "all_exited ?S" by (rule sequential_exits) (simp_all add: red_blue_queue_def)
  have "At (dstImg ?Z) 0 0 = RGBA 0 0 0 0" by (simp add: NewRGBA_def)
  moreover have "dstImg ?S = dstImg (fold (process_item ?env (example_argv 1 ''out.png''))
      red_blue_queue (core (init_pool 1 red_blue_queue grid_2x1)))"
    by (rule sequential_fields(2)) (simp_all add: red_blue_queue_def)
  then have "At (dstImg ?S) 0 0 = RGBA 255 0 0 255"
    by (simp add: red_blue_queue_def process_item_At tile_px_example red_blue_def solid_def
        tile_rect_def In_def Let_def NewRGBA_def Rect_def grid_2x1_def)
  ultimately have "At (dstImg ?Z) 0 0 \<noteq> At (dstImg ?S) 0 0" by simp
  then have ZS: "dstImg ?Z \<noteq> dstImg ?S" by metis
  from red_blue_fill eA eB AB eZ eS ZS show ?thesis by (intro conjI)
qed

text \<open>
  Claim C9, as amended. When the flags are accepted, the metadata leaves the columns at
  0 and the tile count is not 1, the extraction succeeds and there is at least one
  tile file, filling the queue divides by zero and \<^verbatim>\<open>main\<close> panics (after removing
  the tile files). With at least one column the queue is always built, with column
  \<open>k mod cols\<close> and row \<open>k div cols\<close> for the item of index \<open>k\<close>. The queue is built
  exactly when the number of columns is not 0: with a negative number of columns the
  division truncates, the column is \<open>k mod \<bar>cols\<bar>\<close> and the row is
  \<open>- (k div \<bar>cols\<bar>)\<close>.
\<close>

theorem zero_cols_divides_by_zero:
  assumes "\<not> version a" "\<not> help_flag a" "0 \<le> pngCompression a" "pngCompression a \<le> 3"
    "0 \<le> jpegQuality a" "jpegQuality a \<le> 100" "2 \<le> length (args a)"
    and "run_info env (heif2hevcPath a) (args a ! 0) = Inr out"
    and "Cols (read_loop zero_HeifInfo out) = 0" and "Tiles (read_loop zero_HeifInfo out) \<noteq> 1"
    and "heif2hevc env (a\<lparr>pngCompression := - pngCompression a\<rparr>) (args a ! 0) (args a ! 1)
           = (t2, files, None)"
    and "files \<noteq> []"
  shows "fill_queue 0 files (Cols (read_loop zero_HeifInfo out)) = Inl DivideByZero
       \<and> main env a sched = Some
           \<lparr>outcome = Panicked DivideByZero,
            trace = Exec (heif2hevcPath a) [''-info'', args a ! 0] # t2 @ map Remove files\<rparr>
       \<and> (\<forall>cols \<ge> 1. \<exists>q. fill_queue 0 files cols = Inr q
            \<and> (\<forall>k < length files. item_x (q ! k) = int k mod cols
                  \<and> item_y (q ! k) = int k div cols))
       \<and> (\<forall>cols. (\<exists>q. fill_queue 0 files cols = Inr q) = (cols \<noteq> 0))
       \<and> (\<forall>cols. cols \<noteq> 0 \<longrightarrow> (\<exists>q. fill_queue 0 files cols = Inr q
            \<and> (\<forall>k < length files. item_x (q ! k) = int k mod \<bar>cols\<bar>
                  \<and> item_y (q ! k) = sgn cols * (int k div \<bar>cols\<bar>))))"
proof -
  let ?info = "read_loop zero_HeifInfo out"
  from assms(9,10) have st: "Cols (single_tile ?info) = 0" by (simp add: single_tile_def)
  have z: "fill_queue 0 files 0 = Inl DivideByZero" by (rule fill_queue_zero [OF assms(12)])
  then have 1: "fill_queue 0 files (Cols ?info) = Inl DivideByZero" using assms(9) by simp
  from z st have "fill_queue 0 files (Cols (single_tile ?info)) = Inl DivideByZero" by simp
  from assemble_panic [OF assms(1-8,11) this]
  have 2: "main env a sched = Some
           \<lparr>outcome = Panicked DivideByZero,
            trace = Exec (heif2hevcPath a) [''-info'', args a ! 0] # t2 @ map Remove files\<rparr>"
    by (simp add: main_def)
  have 3: "\<exists>q. fill_queue 0 files cols = Inr q
        \<and> (\<forall>k < length files. item_x (q ! k) = int k mod cols \<and> item_y (q ! k) = int k div cols)"
    if "1 \<le> cols" for cols
  proof -
    from that have nz: "cols \<noteq> 0" and ab: "\<bar>cols\<bar> = cols" "sgn cols = 1" by simp_all
    from fill_queue_nonzero [OF nz, of 0 files] show ?thesis by (auto simp: ab)
  qed
  have 5: "\<exists>q. fill_queue 0 files cols = Inr q
        \<and> (\<forall>k < length files. item_x (q ! k) = int k mod \<bar>cols\<bar>
              \<and> item_y (q ! k) = sgn cols * (int k div \<bar>cols\<bar>))"
    if "cols \<noteq> 0" for cols
    using fill_queue_nonzero [OF that, of 0 files] by auto
  have 4: "(\<exists>q. fill_queue 0 files cols = Inr q) = (cols \<noteq> 0)" for cols
  proof (cases "cols = 0")
    case True
    with z show ?thesis by simp
  next
    case False
    with 5 [OF False] show ?thesis by blast
  qed
  from 1 2 3 4 5 show ?thesis by blast
qed

text \<open>
  Claim C9, a run: metadata without a line for the columns, two tile files.
\<close>

theorem zero_cols_divides_by_zero_witness:
  "Cols (read_loop zero_HeifInfo no_cols_text) = 0
   \<and> Tiles (read_loop zero_HeifInfo no_cols_text) = 2
   \<and> main (example_env no_cols_text [''t0'', ''t1''] (\<lambda>b. Some (red_blue b)))
       (example_argv 1 ''out.png'') []
     = Some \<lparr>outcome = Panicked DivideByZero,
             trace = [Exec ''heif2hevc'' [''-info'', ''in.heic''],
                      Exec ''heif2hevc'' [''in.heic'', ''out.png.7.tmp''],
                      Remove ''t0'', Remove ''t1'']\<rparr>"
proof -
  let ?env = "example_env no_cols_text [''t0'', ''t1''] (\<lambda>b. Some (red_blue b))"
  let ?a = "example_argv 1 ''out.png''"
  have f: "\<not> version ?a" "\<not> help_flag ?a" "0 \<le> pngCompression ?a" "pngCompression ?a \<le> 3"
    "0 \<le> jpegQuality ?a" "jpegQuality ?a \<le> 100" "2 \<le> length (args ?a)"
    by simp_all
  have r: "run_info ?env (heif2hevcPath ?a) (args ?a ! 0) = Inr no_cols_text" by simp
  have c: "Cols (read_loop zero_HeifInfo no_cols_text) = 0"
    and t: "Tiles (read_loop zero_HeifInfo no_cols_text) \<noteq> 1"
    and t2: "Tiles (read_loop zero_HeifInfo no_cols_text) = 2"
    by (simp_all add: no_cols_text_info)
  have h: "heif2hevc ?env (?a\<lparr>pngCompression := - pngCompression ?a\<rparr>) (args ?a ! 0) (args ?a ! 1)
      = ([Exec ''heif2hevc'' [''in.heic'', ''out.png'' @ ''.7.tmp'']], [''t0'', ''t1''], None)"
    unfolding example_argv_neg
    using heif2hevc_example [of no_cols_text "[''t0'', ''t1'']" "\<lambda>b. Some (red_blue b)" 1 "''out.png''"]
    by simp
  have n: "[''t0'', ''t1''] \<noteq> []" by simp
  from zero_cols_divides_by_zero [OF f r c t h n, of "[]", THEN conjunct2, THEN conjunct1]
  have "main ?env ?a []
     = Some \<lparr>outcome = Panicked DivideByZero,
             trace = [Exec ''heif2hevc'' [''-info'', ''in.heic''],
                      Exec ''heif2hevc'' [''in.heic'', ''out.png.7.tmp''],
                      Remove ''t0'', Remove ''t1'']\<rparr>"
    by simp
  with c t2 show ?thesis by (intro conjI)
qed

text \<open>
  Claim C9 as stated fails in its precondition: the metadata line \<^verbatim>\<open>cols=-2\<close> is
  parsed, the number of columns is not at least 1, and yet the queue of two tile files
  is built and \<^verbatim>\<open>main\<close> returns.
\<close>

theorem negative_cols_counterexample:
  "Cols (read_loop zero_HeifInfo neg_cols_text) = - 2
   \<and> \<not> 1 \<le> Cols (read_loop zero_HeifInfo neg_cols_text)
   \<and> Tiles (read_loop zero_HeifInfo neg_cols_text) = 2
   \<and> fill_queue 0 [''t0'', ''t1''] (Cols (read_loop zero_HeifInfo neg_cols_text))
     = Inr [\<lparr>hevcFile = ''t0'', item_x = 0, item_y = 0\<rparr>,
            \<lparr>hevcFile = ''t1'', item_x = 1, item_y = 0\<rparr>]
   \<and> main (example_env neg_cols_text [''t0'', ''t1''] (\<lambda>b. Some (red_blue b)))
       (example_argv 1 ''out.png'') (sequential 1 2)
     = Some \<lparr>outcome = Returned,
             trace = [Exec ''heif2hevc'' [''-info'', ''in.heic''],
                      Exec ''heif2hevc'' [''in.heic'', ''out.png.7.tmp''],
                      ffmpeg_cmd (example_argv 1 ''out.png'') ''t0'',
                      ffmpeg_cmd (example_argv 1 ''out.png'') ''t1'',
                      Create ''out.png'',
                      EncodePNG ''out.png'' 0
                        (dstImg (run_workers
                           (example_env neg_cols_text [''t0'', ''t1''] (\<lambda>b. Some (red_blue b)))
                           (example_argv 1 ''out.png'') (sequential 1 2)
                           (init_pool 1 red_blue_queue
                              (single_tile (read_loop zero_HeifInfo neg_cols_text))))),
                      Close ''out.png'',
                      Remove ''t0'', Remove ''t1'']\<rparr>"
proof -
  let ?env = "example_env neg_cols_text [''t0'', ''t1''] (\<lambda>b. Some (red_blue b))"
  let ?a = "example_argv 1 ''out.png''"
  let ?info = "single_tile (read_loop zero_HeifInfo neg_cols_text)"
  have c: "Cols (read_loop zero_HeifInfo neg_cols_text) = - 2"
    and t: "Tiles (read_loop zero_HeifInfo neg_cols_text) = 2"
    by (simp_all add: neg_cols_text_info)
  from c have c1: "\<not> 1 \<le> Cols (read_loop zero_HeifInfo neg_cols_text)" by simp
  have st: "?info = \<lparr>Width = 4, Height = 2, Rotation = 0, Tiles = 2, Rows = - 1, Cols = - 2\<rparr>"
    by (simp add: neg_cols_text_info single_tile_def)
  have f: "fill_queue 0 [''t0'', ''t1''] (- 2) = Inr red_blue_queue"
    by (simp add: go_rem_def go_quo_def red_blue_queue_def)
  have f1: "fill_queue 0 [''t0'', ''t1''] (Cols (read_loop zero_HeifInfo neg_cols_text))
      = Inr [\<lparr>hevcFile = ''t0'', item_x = 0, item_y = 0\<rparr>,
             \<lparr>hevcFile = ''t1'', item_x = 1, item_y = 0\<rparr>]"
    unfolding c f by (simp add: red_blue_queue_def)
  have "Cols ?info = - 2" by (simp add: st)
  then have q: "fill_queue 0 [''t0'', ''t1''] (Cols ?info) = Inr red_blue_queue"
    by (simp only: f)
  have np: "\<not> NewRGBA_panics (Rect 0 0 (Width ?info) (Height ?info))"
    unfolding st by (rule NewRGBA_small) simp_all
  have k: "2 = length red_blue_queue" by (simp add: red_blue_queue_def)
  have ex: "all_exited (run_workers ?env ?a (sequential 1 2) (init_pool 1 red_blue_queue ?info))"
    by (rule sequential_exits [OF order_refl k])
  have "main ?env ?a (sequential 1 2)
      = Some (finish ?env (example_assembly neg_cols_text [''t0'', ''t1'']
               (\<lambda>b. Some (red_blue b)) 1 ''out.png'' (sequential 1 2) red_blue_queue))"
    by (rule main_finish [OF example_assemble [OF q np ex]])
  then have m: "main ?env ?a (sequential 1 2)
     = Some \<lparr>outcome = Returned,
             trace = [Exec ''heif2hevc'' [''-info'', ''in.heic''],
                      Exec ''heif2hevc'' [''in.heic'', ''out.png.7.tmp''],
                      ffmpeg_cmd ?a ''t0'', ffmpeg_cmd ?a ''t1'',
                      Create ''out.png'',
                      EncodePNG ''out.png'' 0
                        (dstImg (run_workers ?env ?a (sequential 1 2)
                           (init_pool 1 red_blue_queue ?info))),
                      Close ''out.png'',
                      Remove ''t0'', Remove ''t1'']\<rparr>"
    unfolding finish_example red_blue_log png_name by simp
  from c c1 t f1 m show ?thesis by (intro conjI)
qed

text \<open>
  Claim C10. The format chosen for a destination depends only on the lower-cased
  name: two names that differ only in the case of their letters select the same
  encoder.
\<close>

theorem dst_format_ignores_case:
  "ToLower d1 = ToLower d2 \<Longrightarrow> dst_format d1 = dst_format d2"
proof -
  assume "ToLower d1 = ToLower d2"
  then have "Ext (ToLower d1) = Ext (ToLower d2)" by simp
  then have "ToLower (Ext d1) = ToLower (Ext d2)" unfolding Ext_ToLower .
  then show ?thesis by (simp add: dst_format_def)
qed

text \<open>
  Claim C10, three names with upper-case extensions.
\<close>

theorem dst_format_ignores_case_witness:
  "ToLower ''photo.JPEG'' = ToLower ''photo.jpeg'' \<and> dst_format ''photo.JPEG'' = JPEG
   \<and> dst_format ''a/b.c/pic.PNG'' = PNG \<and> dst_format ''x.Jpg'' = JPEG"
proof -
  have h: "ToLower ''photo.JPEG'' = ToLower ''photo.jpeg''" by code_simp
  have h2: "ToLower ''a/b.c/pic.PNG'' = ToLower ''a/b.c/pic.png''" by code_simp
  have h3: "ToLower ''x.Jpg'' = ToLower ''x.jpg''" by code_simp
  have e: "dst_format ''photo.jpeg'' = JPEG" "dst_format ''a/b.c/pic.png'' = PNG"
    "dst_format ''x.jpg'' = JPEG"
    by code_simp+
  from dst_format_ignores_case [OF h] dst_format_ignores_case [OF h2]
    dst_format_ignores_case [OF h3] h e
  show ?thesis by simp
qed

end
